theory Spec2Isabelle
  imports Complex_Main "HOL-Library.Multiset"
begin

section \<open>Python and torch primitives used by the notebook\<close>

text \<open>
  The exceptions that the modelled code paths can raise. \<open>KeyError\<close> carries the
  missing dictionary key, as Python's does.
\<close>

datatype error =
    KeyError string
  | ValueError
  | RuntimeError
  | IndexError
  | OverflowError
  | ZeroDivisionError

text \<open>\<^verbatim>\<open>max(xs)\<close> on a list: raises ValueError on the empty list.\<close>

fun py_max :: "nat list \<Rightarrow> error + nat" where
  "py_max [] = Inl ValueError"
| "py_max (x # xs) = Inr (fold max xs x)"

text \<open>
  Slices \<^verbatim>\<open>xs[:k]\<close> and \<^verbatim>\<open>xs[k:]\<close>: a negative bound counts from the end, and
  every bound is clamped to the list.
\<close>

definition slice_to :: "'a list \<Rightarrow> int \<Rightarrow> 'a list" where
  "slice_to xs k = take (nat (if k < 0 then int (length xs) + k else k)) xs"

definition slice_from :: "'a list \<Rightarrow> int \<Rightarrow> 'a list" where
  "slice_from xs k = drop (nat (if k < 0 then int (length xs) + k else k)) xs"

subsection \<open>Double-precision arithmetic of the split point\<close>

text \<open>
  Python floats are IEEE binary64. A finite double is a rational; an operation returns
  the exact result rounded to the nearest double, ties to even. \<open>fl\<close> is that rounding
  with an unbounded exponent range (no result in the notebook's split computation is
  subnormal: a non-zero quotient of an integer by 100 is at least 1/100 in magnitude);
  a rounded magnitude of \<open>2 ^ 1024\<close> or more is an overflow.
\<close>

definition pow2 :: "int \<Rightarrow> rat" where
  "pow2 k = (if 0 \<le> k then 2 ^ nat k else 1 / 2 ^ nat (- k))"

text \<open>The number of binary digits of a positive integer (\<^verbatim>\<open>n.bit_length()\<close>).\<close>

function bit_length :: "int \<Rightarrow> nat" where
  "bit_length n = (if n \<le> 0 then 0 else Suc (bit_length (n div 2)))"
  by pat_completeness auto
termination
  by (relation "measure nat") auto

definition round_even :: "rat \<Rightarrow> int" where
  "round_even q =
     (let f = \<lfloor>q\<rfloor>; r = q - of_int f
      in if r < 1 / 2 then f else if 1 / 2 < r then f + 1
         else if even f then f else f + 1)"

definition fl :: "rat \<Rightarrow> rat" where
  "fl q =
     (if q = 0 then 0
      else
        let a = \<bar>q\<bar>;
            k = int (bit_length (fst (quotient_of a)))
              - int (bit_length (snd (quotient_of a)));
            e = (if pow2 k \<le> a then k else k - 1);
            m = round_even (a / pow2 (e - 52))
        in sgn q * of_int m * pow2 (e - 52))"

definition finite_double :: "rat \<Rightarrow> bool" where
  "finite_double r \<longleftrightarrow> \<bar>r\<bar> < 2 ^ 1024"

text \<open>
  \<^verbatim>\<open>a / b\<close> on two ints (true division): correctly rounded; ZeroDivisionError for a
  zero divisor, OverflowError when the quotient is too large for a float.
\<close>

definition int_truediv :: "int \<Rightarrow> int \<Rightarrow> error + rat" where
  "int_truediv a b =
     (if b = 0 then Inl ZeroDivisionError
      else let r = fl (of_int a / of_int b)
           in if finite_double r then Inr r else Inl OverflowError)"

text \<open>
  \<^verbatim>\<open>int(n * x)\<close> for an int \<open>n\<close> and a float \<open>x\<close>: \<open>n\<close> is converted to a float
  (OverflowError when it is too large), the product is rounded, and \<^verbatim>\<open>int\<close> truncates
  towards zero; an infinite product makes \<^verbatim>\<open>int\<close> raise OverflowError.
\<close>

definition trunc :: "rat \<Rightarrow> int" where
  "trunc r = (if 0 \<le> r then \<lfloor>r\<rfloor> else \<lceil>r\<rceil>)"

definition int_of_product :: "int \<Rightarrow> rat \<Rightarrow> error + int" where
  "int_of_product n x =
     (let nf = fl (of_int n)
      in if \<not> finite_double nf then Inl OverflowError
         else let p = fl (nf * x)
              in if finite_double p then Inr (trunc p) else Inl OverflowError)"

subsection \<open>Tensors\<close>

text \<open>
  A \<^verbatim>\<open>LongTensor\<close> row is a list of integers; a two-dimensional tensor is the list
  of its rows. \<^verbatim>\<open>torch.stack(rows, 0)\<close> raises RuntimeError on an empty list of rows
  and on rows of different sizes.
\<close>

type_synonym row = "int list"
type_synonym tensor2 = "row list"

definition stack :: "row list \<Rightarrow> error + tensor2" where
  "stack rows =
     (case rows of
        [] \<Rightarrow> Inl RuntimeError
      | r # rs \<Rightarrow> if list_all (\<lambda>r'. length r' = length r) rs then Inr rows
                  else Inl RuntimeError)"

section \<open>process_data: vocabulary, encoding and split\<close>

text \<open>
  The comprehension \<^verbatim>\<open>[phone2ix[p] for p in sequence]\<close>, which both \<^verbatim>\<open>process_data\<close>
  and \<^verbatim>\<open>get_probs\<close> use to encode a sequence: the first symbol that is not a key of
  the dictionary raises KeyError.
\<close>

fun encode :: "(string \<rightharpoonup> nat) \<Rightarrow> string list \<Rightarrow> error + row" where
  "encode phone2ix [] = Inr []"
| "encode phone2ix (p # ps) =
     (case phone2ix p of
        None \<Rightarrow> Inl (KeyError p)
      | Some ix \<Rightarrow>
          (case encode phone2ix ps of
             Inl e \<Rightarrow> Inl e
           | Inr ixs \<Rightarrow> Inr (int ix # ixs)))"

text \<open>The outer comprehension over the sequences: the first failure propagates.\<close>

fun encode_all :: "(string \<rightharpoonup> nat) \<Rightarrow> string list list \<Rightarrow> error + row list" where
  "encode_all phone2ix [] = Inr []"
| "encode_all phone2ix (s # ss) =
     (case encode phone2ix s of
        Inl e \<Rightarrow> Inl e
      | Inr r \<Rightarrow>
          (case encode_all phone2ix ss of
             Inl e \<Rightarrow> Inl e
           | Inr rs \<Rightarrow> Inr (r # rs)))"

text \<open>
  The two dictionary comprehensions over \<^verbatim>\<open>enumerate(inventory)\<close>: entries are
  stored in order, a later entry replacing an earlier one with the same key.
\<close>

definition mk_phone2ix :: "string list \<Rightarrow> (string \<rightharpoonup> nat)" where
  "mk_phone2ix inventory =
     fold (\<lambda>(ix, p) d. d(p \<mapsto> ix)) (enumerate 0 inventory) Map.empty"

definition mk_ix2phone :: "string list \<Rightarrow> (nat \<rightharpoonup> string)" where
  "mk_ix2phone inventory =
     fold (\<lambda>(ix, p) d. d(ix \<mapsto> p)) (enumerate 0 inventory) Map.empty"

definition pad_to :: "nat \<Rightarrow> string list \<Rightarrow> string list" where
  "pad_to max_chars sequence = sequence @ replicate (max_chars - length sequence) ''<p>''"

text \<open>
  The last block of \<^verbatim>\<open>process_data\<close>: without a dev set the training tensor is
  the whole of \<^verbatim>\<open>as_ixs\<close> and the dev tensor its slice \<^verbatim>\<open>[-10:]\<close>; with one, the
  list is cut at \<^verbatim>\<open>int(len(as_ixs) * (training_split/100))\<close>.
\<close>

definition split_data :: "row list \<Rightarrow> bool \<Rightarrow> int \<Rightarrow> error + (tensor2 \<times> tensor2)" where
  "split_data as_ixs dev training_split =
     (if \<not> dev then
        (case stack as_ixs of
           Inl e \<Rightarrow> Inl e
         | Inr training_data \<Rightarrow>
            (case stack (slice_from as_ixs (- 10)) of
               Inl e \<Rightarrow> Inl e
             | Inr dev_data \<Rightarrow> Inr (training_data, dev_data)))
      else
        (case int_truediv training_split 100 of
           Inl e \<Rightarrow> Inl e
         | Inr fraction \<Rightarrow>
            (case int_of_product (int (length as_ixs)) fraction of
               Inl e \<Rightarrow> Inl e
             | Inr split \<Rightarrow>
                (case stack (slice_to as_ixs split) of
                   Inl e \<Rightarrow> Inl e
                 | Inr training_data \<Rightarrow>
                    (case stack (slice_from as_ixs split) of
                       Inl e \<Rightarrow> Inl e
                     | Inr dev_data \<Rightarrow> Inr (training_data, dev_data))))))"

text \<open>
  \<^verbatim>\<open>process_data(string_training_data, dev, training_split)\<close>. Two parameters stand
  for what Python leaves open: \<open>shuffle\<close> is the outcome of \<^verbatim>\<open>random.shuffle\<close> (some
  permutation of its argument) and \<open>set_list\<close> is \<^verbatim>\<open>list(set(...))\<close> (the distinct
  elements of its argument, in the order the hash table yields them).
\<close>

definition inventory_of :: "(string list \<Rightarrow> string list) \<Rightarrow> string list list \<Rightarrow> string list" where
  "inventory_of set_list padded =
     ''<p>'' # filter (\<lambda>x. x \<noteq> ''<p>'') (set_list (concat padded))"

definition process_data ::
  "(string list list \<Rightarrow> string list list) \<Rightarrow> (string list \<Rightarrow> string list) \<Rightarrow>
   string list list \<Rightarrow> bool \<Rightarrow> int \<Rightarrow>
   error + (string list \<times> (string \<rightharpoonup> nat) \<times> (nat \<rightharpoonup> string) \<times> tensor2 \<times> tensor2)" where
  "process_data shuffle set_list string_training_data dev training_split =
     (let shuffled = shuffle string_training_data in
      case py_max (map length shuffled) of
        Inl e \<Rightarrow> Inl e
      | Inr max_chars \<Rightarrow>
         (let padded = map (pad_to max_chars) shuffled;
              inventory = inventory_of set_list padded;
              phone2ix = mk_phone2ix inventory;
              ix2phone = mk_ix2phone inventory
          in case encode_all phone2ix padded of
               Inl e \<Rightarrow> Inl e
             | Inr as_ixs \<Rightarrow>
                (case split_data as_ixs dev training_split of
                   Inl e \<Rightarrow> Inl e
                 | Inr (training_data, dev_data) \<Rightarrow>
                     Inr (inventory, phone2ix, ix2phone, training_data, dev_data))))"

section \<open>The language model Emb_RNNLM\<close>

text \<open>
  Floating-point tensors are modelled over the reals. A parameter tensor is a vector or a
  matrix (the list of its rows).
\<close>

type_synonym vec = "real list"
type_synonym mat = "vec list"

datatype param = Vector vec | Matrix mat

fun the_mat :: "param \<Rightarrow> mat" where
  "the_mat (Matrix m) = m"
| "the_mat (Vector v) = [v]"

fun the_vec :: "param \<Rightarrow> vec" where
  "the_vec (Vector v) = v"
| "the_vec (Matrix m) = concat m"

text \<open>
  Parameters are objects: a module holds references to them, and two modules (or two
  attributes) may hold the same reference. The heap maps a reference to the tensor it
  holds; \<open>alloc\<close> creates a new object.
\<close>

record heap =
  cell :: "nat \<Rightarrow> param"
  next_free :: nat

definition alloc :: "param \<Rightarrow> heap \<Rightarrow> nat \<times> heap" where
  "alloc v h = (next_free h, h\<lparr>cell := (cell h)(next_free h := v), next_free := Suc (next_free h)\<rparr>)"

definition update_param :: "nat \<Rightarrow> param \<Rightarrow> heap \<Rightarrow> heap" where
  "update_param a v h = h\<lparr>cell := (cell h)(a := v)\<rparr>"

text \<open>The hyperparameter dictionary \<^verbatim>\<open>params\<close>, one field per key.\<close>

record params =
  d_emb :: nat
  d_hid :: nat
  num_layers :: nat
  batch_size :: nat
  learning_rate :: real
  epochs :: nat
  tied :: bool
  inv_size :: nat

text \<open>One layer of \<^verbatim>\<open>nn.RNN\<close>: the references to its four parameters.\<close>

record rnn_layer =
  weight_ih :: nat
  weight_hh :: nat
  bias_ih :: nat
  bias_hh :: nat

text \<open>
  The module: its attributes, with \<open>emb_dim\<close> and \<open>hid_dim\<close> for \<^verbatim>\<open>self.d_emb\<close> and
  \<^verbatim>\<open>self.d_hid\<close> (the names \<open>d_emb\<close> and \<open>d_hid\<close> are the keys of \<^verbatim>\<open>params\<close>),
  \<open>embeddings_weight\<close> for \<^verbatim>\<open>self.embeddings.weight\<close>, \<open>i2R\<close> for the layers of
  \<^verbatim>\<open>self.i2R\<close>, and \<open>R2o_weight\<close>, \<open>R2o_bias\<close> for the two parameters of
  \<^verbatim>\<open>self.R2o\<close>.
\<close>

record Emb_RNNLM =
  vocab_size :: nat
  emb_dim :: nat
  n_layers :: nat
  hid_dim :: nat
  embeddings_weight :: nat
  i2R :: "rnn_layer list"
  R2o_weight :: nat
  R2o_bias :: nat

text \<open>
  The layer constructors draw their initial weights at random; \<open>rand_mat a r c\<close> and
  \<open>rand_vec a n\<close> stand for the values drawn for the parameter created at reference \<open>a\<close>
  with the given shape.
\<close>

definition rnn_layer_alloc ::
  "(nat \<Rightarrow> nat \<Rightarrow> nat \<Rightarrow> mat) \<Rightarrow> (nat \<Rightarrow> nat \<Rightarrow> vec) \<Rightarrow> nat \<Rightarrow> nat \<Rightarrow> heap \<Rightarrow> rnn_layer \<times> heap" where
  "rnn_layer_alloc rand_mat rand_vec in_dim hid h =
     (let (w_ih, h1) = alloc (Matrix (rand_mat (next_free h) hid in_dim)) h;
          (w_hh, h2) = alloc (Matrix (rand_mat (next_free h1) hid hid)) h1;
          (b_ih, h3) = alloc (Vector (rand_vec (next_free h2) hid)) h2;
          (b_hh, h4) = alloc (Vector (rand_vec (next_free h3) hid)) h3
      in (\<lparr>weight_ih = w_ih, weight_hh = w_hh, bias_ih = b_ih, bias_hh = b_hh\<rparr>, h4))"

fun nn_RNN ::
  "(nat \<Rightarrow> nat \<Rightarrow> nat \<Rightarrow> mat) \<Rightarrow> (nat \<Rightarrow> nat \<Rightarrow> vec) \<Rightarrow> nat \<Rightarrow> nat \<Rightarrow> nat \<Rightarrow> heap \<Rightarrow>
   rnn_layer list \<times> heap" where
  "nn_RNN rand_mat rand_vec in_dim hid 0 h = ([], h)"
| "nn_RNN rand_mat rand_vec in_dim hid (Suc n) h =
     (let (l, h1) = rnn_layer_alloc rand_mat rand_vec in_dim hid h;
          (ls, h2) = nn_RNN rand_mat rand_vec hid hid n h1
      in (l # ls, h2))"

text \<open>
  \<^verbatim>\<open>Emb_RNNLM.__init__(params)\<close>: returns the module, the heap with its parameters and
  the lines printed. With tying requested and equal dimensions the attribute
  \<^verbatim>\<open>R2o.weight\<close> is rebound to the embedding's parameter; with unequal dimensions a line
  is printed and nothing else happens.
\<close>

definition Emb_RNNLM_init ::
  "(nat \<Rightarrow> nat \<Rightarrow> nat \<Rightarrow> mat) \<Rightarrow> (nat \<Rightarrow> nat \<Rightarrow> vec) \<Rightarrow> params \<Rightarrow> heap \<Rightarrow>
   Emb_RNNLM \<times> heap \<times> string list" where
  "Emb_RNNLM_init rand_mat rand_vec ps h =
     (let (emb, h1) = alloc (Matrix (rand_mat (next_free h) (inv_size ps) (d_emb ps))) h;
          (layers, h2) = nn_RNN rand_mat rand_vec (d_emb ps) (d_hid ps) (num_layers ps) h1;
          (w, h3) = alloc (Matrix (rand_mat (next_free h2) (inv_size ps) (d_hid ps))) h2;
          (b, h4) = alloc (Vector (rand_vec (next_free h3) (inv_size ps))) h3;
          net = \<lparr>vocab_size = inv_size ps, emb_dim = d_emb ps, n_layers = num_layers ps,
                 hid_dim = d_hid ps, embeddings_weight = emb, i2R = layers,
                 R2o_weight = w, R2o_bias = b\<rparr>
      in if tied ps then
           (if d_emb ps = d_hid ps then (net\<lparr>R2o_weight := emb\<rparr>, h4, [])
            else (net, h4, [''Dimensions don't support tied embeddings'']))
         else (net, h4, []))"

subsection \<open>The forward pass\<close>

definition dot :: "vec \<Rightarrow> vec \<Rightarrow> real" where
  "dot u v = sum_list (map2 (*) u v)"

definition matvec :: "mat \<Rightarrow> vec \<Rightarrow> vec" where
  "matvec W x = map (\<lambda>r. dot r x) W"

definition vadd :: "vec \<Rightarrow> vec \<Rightarrow> vec" where
  "vadd u v = map2 (+) u v"

text \<open>\<^verbatim>\<open>nn.Embedding\<close>: row \<open>i\<close> of the weight; an index outside it raises IndexError.\<close>

definition embedding :: "mat \<Rightarrow> int \<Rightarrow> error + vec" where
  "embedding W i = (if 0 \<le> i \<and> nat i < length W then Inr (W ! nat i) else Inl IndexError)"

fun embed_row :: "mat \<Rightarrow> row \<Rightarrow> error + vec list" where
  "embed_row W [] = Inr []"
| "embed_row W (i # is) =
     (case embedding W i of
        Inl e \<Rightarrow> Inl e
      | Inr x \<Rightarrow> (case embed_row W is of Inl e \<Rightarrow> Inl e | Inr xs \<Rightarrow> Inr (x # xs)))"

text \<open>
  \<^verbatim>\<open>nn.RNN\<close> with the default tanh: \<open>h\<^sub>t = tanh(W\<^sub>i\<^sub>h x\<^sub>t + b\<^sub>i\<^sub>h + W\<^sub>h\<^sub>h h\<^sub>t\<^sub>-\<^sub>1 + b\<^sub>h\<^sub>h)\<close>, from
  \<open>h\<^sub>0 = 0\<close>; the output of a layer is its sequence of hidden states, the input of the
  next layer.
\<close>

definition rnn_cell :: "heap \<Rightarrow> rnn_layer \<Rightarrow> vec \<Rightarrow> vec \<Rightarrow> vec" where
  "rnn_cell h l x hprev =
     map tanh
       (vadd (vadd (matvec (the_mat (cell h (weight_ih l))) x) (the_vec (cell h (bias_ih l))))
             (vadd (matvec (the_mat (cell h (weight_hh l))) hprev) (the_vec (cell h (bias_hh l)))))"

fun rnn_scan :: "heap \<Rightarrow> rnn_layer \<Rightarrow> vec \<Rightarrow> vec list \<Rightarrow> vec list" where
  "rnn_scan h l hprev [] = []"
| "rnn_scan h l hprev (x # xs) =
     (let hnew = rnn_cell h l x hprev in hnew # rnn_scan h l hnew xs)"

definition rnn_forward :: "heap \<Rightarrow> nat \<Rightarrow> rnn_layer list \<Rightarrow> vec list \<Rightarrow> vec list" where
  "rnn_forward h hid layers xs = fold (\<lambda>l ys. rnn_scan h l (replicate hid 0) ys) layers xs"

definition linear :: "mat \<Rightarrow> vec \<Rightarrow> vec \<Rightarrow> vec" where
  "linear W b x = vadd (matvec W x) b"

text \<open>
  \<^verbatim>\<open>Emb_RNNLM.forward(batch)\<close>. Every layer treats the rows of a batch independently,
  so the forward pass is written for one row and mapped over the batch; the result has
  one score vector per position.
\<close>

definition forward_row :: "Emb_RNNLM \<Rightarrow> heap \<Rightarrow> row \<Rightarrow> error + vec list" where
  "forward_row net h r =
     (case embed_row (the_mat (cell h (embeddings_weight net))) r of
        Inl e \<Rightarrow> Inl e
      | Inr embs \<Rightarrow>
          Inr (map (linear (the_mat (cell h (R2o_weight net))) (the_vec (cell h (R2o_bias net))))
                 (rnn_forward h (hid_dim net) (i2R net) embs)))"

fun forward :: "Emb_RNNLM \<Rightarrow> heap \<Rightarrow> tensor2 \<Rightarrow> error + vec list list" where
  "forward net h [] = Inr []"
| "forward net h (r # rs) =
     (case forward_row net h r of
        Inl e \<Rightarrow> Inl e
      | Inr out \<Rightarrow> (case forward net h rs of Inl e \<Rightarrow> Inl e | Inr outs \<Rightarrow> Inr (out # outs)))"


section \<open>Loss, perplexity and training\<close>

text \<open>
  A scalar float is a real number or NaN (the result of \<open>0/0\<close>).
\<close>

datatype fval = Finite real | NaN

fun fadd :: "fval \<Rightarrow> fval \<Rightarrow> fval" where
  "fadd (Finite a) (Finite b) = Finite (a + b)"
| "fadd _ _ = NaN"

text \<open>
  \<^verbatim>\<open>nn.CrossEntropyLoss(ignore_index=0)\<close> on a list of score vectors and a list of
  targets. The loss of one position is the negative log of the softmax probability of its
  target. A position whose target is \<open>ignore_index\<close> is skipped; any other target outside
  the score vector raises IndexError. \<open>masked_losses\<close> is the list of the losses of the
  positions that are not skipped; the default reduction is their mean (NaN when there is
  none), \<^verbatim>\<open>reduction='sum'\<close> their sum.
\<close>

definition nll_at :: "vec \<Rightarrow> int \<Rightarrow> real" where
  "nll_at scores target = ln (sum_list (map exp scores)) - scores ! nat target"

fun masked_losses :: "(vec \<times> int) list \<Rightarrow> error + real list" where
  "masked_losses [] = Inr []"
| "masked_losses ((scores, target) # rest) =
     (if target = 0 then masked_losses rest
      else if target < 0 \<or> length scores \<le> nat target then Inl IndexError
      else (case masked_losses rest of
              Inl e \<Rightarrow> Inl e
            | Inr ls \<Rightarrow> Inr (nll_at scores target # ls)))"

definition cross_entropy_mean :: "vec list \<Rightarrow> int list \<Rightarrow> error + fval" where
  "cross_entropy_mean preds targets =
     (case masked_losses (zip preds targets) of
        Inl e \<Rightarrow> Inl e
      | Inr ls \<Rightarrow> Inr (if ls = [] then NaN else Finite (sum_list ls / real (length ls))))"

definition cross_entropy_sum :: "vec list \<Rightarrow> int list \<Rightarrow> error + real" where
  "cross_entropy_sum preds targets =
     (case masked_losses (zip preds targets) of
        Inl e \<Rightarrow> Inl e
      | Inr ls \<Rightarrow> Inr (sum_list ls))"

text \<open>
  The alignment that \<^verbatim>\<open>train_lm\<close> and \<^verbatim>\<open>compute_perplexity\<close> both perform:
  \<^verbatim>\<open>preds[:, :-1, :].contiguous().view(-1, net.vocab_size)\<close> and
  \<^verbatim>\<open>batch[:, 1:].contiguous().view(-1)\<close>.
\<close>

definition shift_preds :: "vec list list \<Rightarrow> vec list" where
  "shift_preds outputs = concat (map butlast outputs)"

definition shift_targets :: "tensor2 \<Rightarrow> int list" where
  "shift_targets batch = concat (map tl batch)"

text \<open>
  The batch boundaries \<^verbatim>\<open>[(start, start + bsz) for start in range(0, n, bsz)]\<close>
  (\<^verbatim>\<open>range\<close> raises ValueError for a zero step) and the slice
  \<^verbatim>\<open>dataset[start:end]\<close>.
\<close>

definition batches_of :: "nat \<Rightarrow> nat \<Rightarrow> error + (nat \<times> nat) list" where
  "batches_of n bsz =
     (if bsz = 0 then Inl ValueError
      else Inr (map (\<lambda>k. (k * bsz, k * bsz + bsz)) [0..<(n + bsz - 1) div bsz]))"

definition rows_between :: "tensor2 \<Rightarrow> nat \<Rightarrow> nat \<Rightarrow> tensor2" where
  "rows_between dataset start end = take (end - start) (drop start dataset)"

text \<open>\<^verbatim>\<open>torch.nonzero(batch).size(0)\<close>: the number of non-zero entries of the batch.\<close>

definition count_nonzero :: "tensor2 \<Rightarrow> nat" where
  "count_nonzero batch = length (filter (\<lambda>x. x \<noteq> 0) (concat batch))"

text \<open>
  \<^verbatim>\<open>compute_perplexity(dataset, net, bsz)\<close>. The loop carries \<^verbatim>\<open>nll\<close> and
  \<^verbatim>\<open>total_unmasked_tokens\<close>. With no batch at all both are still the Python floats
  \<open>0.\<close> and the division raises ZeroDivisionError; after a batch \<^verbatim>\<open>nll\<close> is a tensor
  and a zero count gives NaN.
\<close>

fun perplexity_loop ::
  "Emb_RNNLM \<Rightarrow> heap \<Rightarrow> tensor2 \<Rightarrow> (nat \<times> nat) list \<Rightarrow> real \<Rightarrow> nat \<Rightarrow> error + real \<times> nat" where
  "perplexity_loop net h dataset [] nll total_unmasked_tokens = Inr (nll, total_unmasked_tokens)"
| "perplexity_loop net h dataset ((start, end) # rest) nll total_unmasked_tokens =
     (let batch = rows_between dataset start end;
          ut = count_nonzero batch
      in case forward net h batch of
           Inl e \<Rightarrow> Inl e
         | Inr preds \<Rightarrow>
            (case cross_entropy_sum (shift_preds preds) (shift_targets batch) of
               Inl e \<Rightarrow> Inl e
             | Inr loss \<Rightarrow>
                 perplexity_loop net h dataset rest (nll + loss) (total_unmasked_tokens + ut)))"

definition compute_perplexity :: "Emb_RNNLM \<Rightarrow> heap \<Rightarrow> tensor2 \<Rightarrow> nat \<Rightarrow> error + fval" where
  "compute_perplexity net h dataset bsz =
     (case batches_of (length dataset) bsz of
        Inl e \<Rightarrow> Inl e
      | Inr batches \<Rightarrow>
         (case perplexity_loop net h dataset batches 0 0 of
            Inl e \<Rightarrow> Inl e
          | Inr (nll, total_unmasked_tokens) \<Rightarrow>
              if batches = [] then Inl ZeroDivisionError
              else if total_unmasked_tokens = 0 then Inr NaN
              else Inr (Finite (exp (nll / real total_unmasked_tokens)))))"

text \<open>
  \<^verbatim>\<open>train_lm(dataset, dev, params, net)\<close>. The state that training changes is the heap
  of parameters together with the optimizer's own state. \<open>step\<close> stands for
  \<^verbatim>\<open>loss.backward(); optimizer.step(); optimizer.zero_grad()\<close> on one batch, and
  \<open>shuffle\<close> for the outcome of \<^verbatim>\<open>random.shuffle(batches)\<close> in a given epoch. What the
  function prints is returned as a list of events: one line per epoch with the epoch's
  summed loss and the dev perplexity, and the early-stop message.
\<close>

datatype event = EpochLine nat fval fval | StopEarly

fun train_batches ::
  "('o \<times> heap \<Rightarrow> Emb_RNNLM \<Rightarrow> tensor2 \<Rightarrow> 'o \<times> heap) \<Rightarrow> Emb_RNNLM \<Rightarrow> tensor2 \<Rightarrow>
   (nat \<times> nat) list \<Rightarrow> 'o \<times> heap \<Rightarrow> fval \<Rightarrow> error + ('o \<times> heap) \<times> fval" where
  "train_batches step net dataset [] st ep_loss = Inr (st, ep_loss)"
| "train_batches step net dataset ((start, end) # rest) st ep_loss =
     (let batch = rows_between dataset start end
      in case forward net (snd st) batch of
           Inl e \<Rightarrow> Inl e
         | Inr preds \<Rightarrow>
            (case cross_entropy_mean (shift_preds preds) (shift_targets batch) of
               Inl e \<Rightarrow> Inl e
             | Inr loss \<Rightarrow>
                 train_batches step net dataset rest (step st net batch) (fadd ep_loss loss)))"

text \<open>The test \<^verbatim>\<open>dev_perplexity - prev_perplexity > 0.01\<close>; it is false for NaN.\<close>

fun exceeds :: "fval \<Rightarrow> real \<Rightarrow> bool" where
  "exceeds (Finite p) prev_perplexity \<longleftrightarrow> p - prev_perplexity > 1 / 100"
| "exceeds NaN prev_perplexity \<longleftrightarrow> False"

text \<open>
  The loop over the epochs. \<open>prev_perplexity\<close> is passed on unchanged: the source
  assigns it once, before the loop, and never again.
\<close>

fun train_epochs ::
  "('o \<times> heap \<Rightarrow> Emb_RNNLM \<Rightarrow> tensor2 \<Rightarrow> 'o \<times> heap) \<Rightarrow>
   (nat \<Rightarrow> (nat \<times> nat) list \<Rightarrow> (nat \<times> nat) list) \<Rightarrow> Emb_RNNLM \<Rightarrow> tensor2 \<Rightarrow> tensor2 \<Rightarrow>
   real \<Rightarrow> nat list \<Rightarrow> (nat \<times> nat) list \<Rightarrow> 'o \<times> heap \<Rightarrow> event list \<Rightarrow>
   error + ('o \<times> heap) \<times> event list" where
  "train_epochs step shuffle net dataset dev prev_perplexity [] batches st out = Inr (st, out)"
| "train_epochs step shuffle net dataset dev prev_perplexity (epoch # rest) batches st out =
     (let batches' = shuffle epoch batches
      in case train_batches step net dataset batches' st (Finite 0) of
           Inl e \<Rightarrow> Inl e
         | Inr (st', ep_loss) \<Rightarrow>
            (case compute_perplexity net (snd st') dev 64 of
               Inl e \<Rightarrow> Inl e
             | Inr dev_perplexity \<Rightarrow>
                (let out' = out @ [EpochLine epoch ep_loss dev_perplexity]
                 in if exceeds dev_perplexity prev_perplexity
                    then Inr (st', out' @ [StopEarly])
                    else train_epochs step shuffle net dataset dev prev_perplexity rest
                           batches' st' out')))"

definition train_lm ::
  "('o \<times> heap \<Rightarrow> Emb_RNNLM \<Rightarrow> tensor2 \<Rightarrow> 'o \<times> heap) \<Rightarrow>
   (nat \<Rightarrow> (nat \<times> nat) list \<Rightarrow> (nat \<times> nat) list) \<Rightarrow>
   tensor2 \<Rightarrow> tensor2 \<Rightarrow> params \<Rightarrow> Emb_RNNLM \<Rightarrow> 'o \<times> heap \<Rightarrow>
   error + ('o \<times> heap) \<times> event list" where
  "train_lm step shuffle dataset dev ps net st =
     (case batches_of (length dataset) (batch_size ps) of
        Inl e \<Rightarrow> Inl e
      | Inr batches \<Rightarrow>
          train_epochs step shuffle net dataset dev (10 ^ 10) [0..<epochs ps] batches st [])"

section \<open>get_probs: scoring a file of words\<close>

text \<open>
  \<^verbatim>\<open>line.rstrip()\<close> removes trailing whitespace, \<^verbatim>\<open>line.split(' ')\<close> cuts at every
  single space and \<^verbatim>\<open>line.replace(' ', '')\<close> deletes the spaces. A character of a
  string is its code point, below 256. The whitespace that \<^verbatim>\<open>rstrip\<close> removes is what
  \<^verbatim>\<open>str.isspace\<close> accepts: among these code points the space, U+0009 to U+000D,
  U+001C to U+001F, U+0085 (next line) and U+00A0 (no-break space).
\<close>

definition is_space :: "char \<Rightarrow> bool" where
  "is_space c \<longleftrightarrow> c \<in> set [CHR '' '', CHR 0x09, CHR 0x0A, CHR 0x0B, CHR 0x0C, CHR 0x0D,
                            CHR 0x1C, CHR 0x1D, CHR 0x1E, CHR 0x1F, CHR 0x85, CHR 0xA0]"

definition rstrip :: "string \<Rightarrow> string" where
  "rstrip s = rev (dropWhile is_space (rev s))"

fun split_space :: "string \<Rightarrow> string list" where
  "split_space [] = [[]]"
| "split_space (c # cs) =
     (if c = CHR '' '' then [] # split_space cs
      else (case split_space cs of
              [] \<Rightarrow> [[c]]
            | w # ws \<Rightarrow> (c # w) # ws))"

definition line_symbols :: "string \<Rightarrow> string list" where
  "line_symbols line = [''<s>''] @ split_space (rstrip line) @ [''<e>'']"

definition line_string :: "string \<Rightarrow> string" where
  "line_string line = filter (\<lambda>c. c \<noteq> CHR '' '') (rstrip line)"

text \<open>
  The first loop of \<^verbatim>\<open>get_probs\<close> encodes every line before anything is scored or
  written; the second writes one line per word. The result is the text written to the
  output file (opened, and so emptied, before the first loop) and the exception that ended
  the call, if any. \<open>fmt\<close> stands for the printing of a float,
  \<^verbatim>\<open>str(perplexity.numpy())\<close>.
\<close>

fun write_scores ::
  "(fval \<Rightarrow> string) \<Rightarrow> Emb_RNNLM \<Rightarrow> heap \<Rightarrow> (string \<times> row) list \<Rightarrow> string list \<Rightarrow>
   string list \<times> error option" where
  "write_scores fmt model h [] written = (written, None)"
| "write_scores fmt model h ((curr_string, word) # rest) written =
     (case compute_perplexity model h [word] 64 of
        Inl e \<Rightarrow> (written, Some e)
      | Inr p \<Rightarrow>
          write_scores fmt model h rest
            (written @ [curr_string @ [CHR 0x09] @ fmt p @ [CHR 0x0A]]))"

definition get_probs ::
  "(fval \<Rightarrow> string) \<Rightarrow> Emb_RNNLM \<Rightarrow> heap \<Rightarrow> (string \<rightharpoonup> nat) \<Rightarrow> string list \<Rightarrow>
   string list \<times> error option" where
  "get_probs fmt model h phone2ix input_lines =
     (case encode_all phone2ix (map line_symbols input_lines) of
        Inl e \<Rightarrow> ([], Some e)
      | Inr data_tens \<Rightarrow>
          write_scores fmt model h (zip (map line_string input_lines) data_tens) [])"


section \<open>A small model for evaluating the definitions\<close>

text \<open>
  A model with two symbols (the padding symbol and one phone), one embedding dimension and
  one hidden unit, built by the constructor from all-zero initial weights, with tying; and
  a stand-in for the optimizer that only moves the first output bias, so that the dev
  perplexity of the corpus \<open>[[1, 1]]\<close> is 2, 3, 4, \<dots> after the first, second, third
  \<dots> update.
\<close>

definition empty_heap :: heap where
  "empty_heap = \<lparr>cell = (\<lambda>a. Vector []), next_free = 0\<rparr>"

definition toy_params :: params where
  "toy_params = \<lparr>d_emb = 1, d_hid = 1, num_layers = 1, batch_size = 64,
                  learning_rate = 5 / 1000, epochs = 3, tied = True, inv_size = 2\<rparr>"

definition toy_model :: "Emb_RNNLM \<times> heap \<times> string list" where
  "toy_model =
     Emb_RNNLM_init (\<lambda>a r c. replicate r (replicate c 0)) (\<lambda>a n. replicate n 0)
       toy_params empty_heap"

definition toy_net :: Emb_RNNLM where
  "toy_net = fst toy_model"

definition toy_heap :: "real \<Rightarrow> heap" where
  "toy_heap b = update_param (R2o_bias toy_net) (Vector [b, 0]) (fst (snd toy_model))"

definition toy_step :: "nat \<times> heap \<Rightarrow> Emb_RNNLM \<Rightarrow> tensor2 \<Rightarrow> nat \<times> heap" where
  "toy_step st net batch =
     (Suc (fst st),
      update_param (R2o_bias net) (Vector [ln (real ((fst st + 2) * (fst st + 2)) - 1), 0]) (snd st))"


section \<open>Properties of process_data\<close>

lemma finite_double_code [code]: "finite_double r \<longleftrightarrow> \<bar>r\<bar> < ((2 ^ 16) ^ 8) ^ 8"
  by (simp add: finite_double_def)

lemma py_max_Inr: "py_max (map length xs) = Inr m \<longleftrightarrow> xs \<noteq> [] \<and> m = Max (length ` set xs)"
proof (cases xs)
  case Nil
  then show ?thesis by simp
next
  case (Cons x rest)
  have "fold max (map length rest) (length x) = Max (set (length x # map length rest))"
    by (rule Max.set_eq_fold [symmetric])
  with Cons show ?thesis by auto
qed

lemma phone2ix_fold_notin:
  "p \<notin> set xs \<Longrightarrow> fold (\<lambda>(ix, p) d. d(p \<mapsto> ix)) (enumerate n xs) d p = d p"
  by (induction xs arbitrary: n d) (simp_all del: fun_upd_apply, simp)

lemma phone2ix_fold_nth:
  "distinct xs \<Longrightarrow> i < length xs \<Longrightarrow>
   fold (\<lambda>(ix, p) d. d(p \<mapsto> ix)) (enumerate n xs) d (xs ! i) = Some (n + i)"
proof (induction xs arbitrary: n d i)
  case Nil
  then show ?case by simp
next
  case (Cons x xs)
  show ?case
  proof (cases i)
    case 0
    with Cons.prems phone2ix_fold_notin [of x xs "Suc n" "d(x \<mapsto> n)"]
    show ?thesis by (simp del: fun_upd_apply) simp
  next
    case (Suc j)
    with Cons.prems Cons.IH [of j "Suc n" "d(x \<mapsto> n)"] show ?thesis
      by (simp del: fun_upd_apply)
  qed
qed

lemma phone2ix_fold_dom:
  "dom (fold (\<lambda>(ix, p) d. d(p \<mapsto> ix)) (enumerate n xs) d) = dom d \<union> set xs"
  by (induction xs arbitrary: n d) auto

lemma ix2phone_fold:
  "fold (\<lambda>(ix, p) d. d(ix \<mapsto> p)) (enumerate n xs) d k =
     (if n \<le> k \<and> k < n + length xs then Some (xs ! (k - n)) else d k)"
proof (induction xs arbitrary: n d)
  case Nil
  then show ?case by auto
next
  case (Cons x xs)
  have "fold (\<lambda>(ix, p) d. d(ix \<mapsto> p)) (enumerate n (x # xs)) d k =
        fold (\<lambda>(ix, p) d. d(ix \<mapsto> p)) (enumerate (Suc n) xs) (d(n \<mapsto> x)) k"
    by (simp del: fun_upd_apply)
  also have "\<dots> = (if Suc n \<le> k \<and> k < Suc n + length xs then Some (xs ! (k - Suc n))
                    else (d(n \<mapsto> x)) k)"
    by (rule Cons.IH)
  also have "\<dots> = (if n \<le> k \<and> k < n + length (x # xs) then Some ((x # xs) ! (k - n)) else d k)"
    by (auto simp: nth_Cons')
  finally show ?case .
qed

lemma mk_phone2ix_nth: "distinct ivt \<Longrightarrow> i < length ivt \<Longrightarrow> mk_phone2ix ivt (ivt ! i) = Some i"
  by (simp add: mk_phone2ix_def phone2ix_fold_nth)

lemma mk_phone2ix_dom: "dom (mk_phone2ix ivt) = set ivt"
  by (simp add: mk_phone2ix_def phone2ix_fold_dom)

lemma mk_ix2phone_nth: "mk_ix2phone ivt k = (if k < length ivt then Some (ivt ! k) else None)"
  by (simp add: mk_ix2phone_def ix2phone_fold)

lemma mk_phone2ix_pad: "mk_phone2ix (inventory_of sl padded) (''<p>'') = Some 0"
  by (simp add: mk_phone2ix_def inventory_of_def phone2ix_fold_notin del: fun_upd_apply) simp

lemma encode_eq:
  "encode d s =
     (if set s \<subseteq> dom d then Inr (map (\<lambda>p. int (the (d p))) s)
      else Inl (KeyError (hd (filter (\<lambda>p. d p = None) s))))"
  by (induction s) (auto split: option.splits)

lemma encode_all_eq:
  "encode_all d ss =
     (if \<forall>s \<in> set ss. set s \<subseteq> dom d then Inr (map (map (\<lambda>p. int (the (d p)))) ss)
      else Inl (KeyError (hd (filter (\<lambda>p. d p = None) (concat ss)))))"
proof (induction ss)
  case Nil
  then show ?case by simp
next
  case (Cons s ss)
  have "filter (\<lambda>p. d p = None) s = []" if "set s \<subseteq> dom d"
    using that by (auto simp: filter_empty_conv)
  moreover have "filter (\<lambda>p. d p = None) s \<noteq> []" if "\<not> set s \<subseteq> dom d"
    using that by (auto simp: filter_empty_conv)
  ultimately show ?case
    by (simp add: Cons.IH encode_eq)
qed

lemma stack_Inr: "stack rows = Inr t \<longleftrightarrow> rows \<noteq> [] \<and> t = rows \<and> (\<forall>r \<in> set rows. length r = length (hd rows))"
  by (auto simp: stack_def list_all_iff split: list.splits)

lemma split_data_subset:
  assumes "split_data as_ixs dv ts = Inr (tr, dvs)"
  shows "set tr \<subseteq> set as_ixs \<and> set dvs \<subseteq> set as_ixs"
proof (cases dv)
  case False
  with assms have "tr = as_ixs" and "dvs = slice_from as_ixs (- 10)"
    by (auto simp add: split_data_def stack_Inr split: sum.splits)
  then show ?thesis by (auto simp: slice_from_def dest: in_set_dropD)
next
  case True
  with assms obtain k where "tr = slice_to as_ixs k" and "dvs = slice_from as_ixs k"
    by (auto simp add: split_data_def stack_Inr split: sum.splits)
  then show ?thesis by (auto simp: slice_from_def slice_to_def dest: in_set_dropD in_set_takeD)
qed

lemma split_data_no_dev:
  "as_ixs \<noteq> [] \<Longrightarrow> \<forall>r \<in> set as_ixs. length r = n \<Longrightarrow>
   split_data as_ixs False ts = Inr (as_ixs, drop (length as_ixs - 10) as_ixs)"
proof -
  assume ne: "as_ixs \<noteq> []" and len: "\<forall>r \<in> set as_ixs. length r = n"
  have d: "slice_from as_ixs (- 10) = drop (length as_ixs - 10) as_ixs"
    by (simp add: slice_from_def nat_diff_distrib')
  have s1: "stack as_ixs = Inr as_ixs"
    using ne len by (simp add: stack_Inr)
  have "0 < length as_ixs" using ne by simp
  then have "length as_ixs - 10 < length as_ixs" by arith
  then have ne2: "drop (length as_ixs - 10) as_ixs \<noteq> []" by simp
  have "\<forall>r \<in> set (drop (length as_ixs - 10) as_ixs). length r = n"
    using len by (auto dest: in_set_dropD)
  moreover have "hd (drop (length as_ixs - 10) as_ixs) \<in> set (drop (length as_ixs - 10) as_ixs)"
    using ne2 by (rule hd_in_set)
  ultimately have s2: "stack (drop (length as_ixs - 10) as_ixs) = Inr (drop (length as_ixs - 10) as_ixs)"
    using ne2 by (simp add: stack_Inr)
  show ?thesis by (simp add: split_data_def s1 s2 d)
qed

lemma pad_to_length: "length s \<le> m \<Longrightarrow> length (pad_to m s) = m"
  by (simp add: pad_to_def)

lemma process_data_InrD:
  assumes "process_data shuffle set_list corpus dv ts = Inr (inventory, phone2ix, ix2phone, training, dev)"
  defines "padded \<equiv> map (pad_to (Max (length ` set (shuffle corpus)))) (shuffle corpus)"
  shows "shuffle corpus \<noteq> []"
    and "inventory = inventory_of set_list padded"
    and "phone2ix = mk_phone2ix inventory"
    and "ix2phone = mk_ix2phone inventory"
    and "\<exists>as_ixs. encode_all phone2ix padded = Inr as_ixs
           \<and> split_data as_ixs dv ts = Inr (training, dev)"
proof -
  obtain m where m: "py_max (map length (shuffle corpus)) = Inr m"
    using assms(1) by (auto simp: process_data_def Let_def split: sum.splits)
  then have ne: "shuffle corpus \<noteq> []" and mdef: "m = Max (length ` set (shuffle corpus))"
    by (simp_all add: py_max_Inr)
  show "shuffle corpus \<noteq> []" by (rule ne)
  have pc: "map (pad_to m) (shuffle corpus) = padded"
    by (simp add: padded_def mdef)
  from assms(1) obtain as_ixs where
    e: "encode_all (mk_phone2ix (inventory_of set_list padded)) padded = Inr as_ixs"
    by (simp add: process_data_def Let_def m pc split: sum.splits)
  from assms(1) obtain tr dvs where
    sp: "split_data as_ixs dv ts = Inr (tr, dvs)"
    by (simp add: process_data_def Let_def m pc e split: sum.splits prod.splits)
  from assms(1) have eqs: "inventory_of set_list padded = inventory \<and>
      mk_phone2ix (inventory_of set_list padded) = phone2ix \<and>
      mk_ix2phone (inventory_of set_list padded) = ix2phone \<and> tr = training \<and> dvs = dev"
    by (auto simp add: process_data_def Let_def m pc e sp)
  show "inventory = inventory_of set_list padded" using eqs by blast
  show "phone2ix = mk_phone2ix inventory" using eqs by blast
  show "ix2phone = mk_ix2phone inventory" using eqs by blast
  show "\<exists>as_ixs. encode_all phone2ix padded = Inr as_ixs
           \<and> split_data as_ixs dv ts = Inr (training, dev)"
    using e sp eqs by blast
qed

lemma inventory_of_set:
  "set (set_list (concat padded)) = set (concat padded) \<Longrightarrow>
   set (inventory_of set_list padded) = insert ''<p>'' (set (concat padded))"
  by (auto simp: inventory_of_def)

lemma inventory_of_distinct:
  "distinct (set_list (concat padded)) \<Longrightarrow> distinct (inventory_of set_list padded)"
  by (simp add: inventory_of_def)

lemma encode_all_vocab:
  assumes "set (set_list (concat padded)) = set (concat padded)"
  shows "encode_all (mk_phone2ix (inventory_of set_list padded)) padded =
           Inr (map (map (\<lambda>p. int (the (mk_phone2ix (inventory_of set_list padded) p)))) padded)"
proof -
  have "\<forall>s \<in> set padded. set s \<subseteq> dom (mk_phone2ix (inventory_of set_list padded))"
    using assms by (auto simp: mk_phone2ix_dom inventory_of_set)
  then show ?thesis by (simp add: encode_all_eq)
qed

lemma map_pad_to:
  "f ''<p>'' = z \<Longrightarrow> map f (pad_to m w) = map f w @ replicate (m - length w) z"
  by (simp add: pad_to_def)

text \<open>
  C5. Whenever \<^verbatim>\<open>process_data\<close> returns, the padding symbol \<^verbatim>\<open><p>\<close> has index 0 in
  the vocabulary it built, index 0 maps back to the padding symbol, and looking a symbol
  of the inventory up in \<^verbatim>\<open>phone2ix\<close> and the result in \<^verbatim>\<open>ix2phone\<close> gives the symbol
  back.
\<close>

theorem process_data_vocab_roundtrip:
  assumes setl: "\<forall>xs. distinct (set_list xs) \<and> set (set_list xs) = set xs"
    and res: "process_data shuffle set_list corpus dv ts =
                Inr (inventory, phone2ix, ix2phone, training, dev)"
  shows "phone2ix ''<p>'' = Some 0 \<and> ix2phone 0 = Some ''<p>'' \<and>
         (\<forall>s \<in> set inventory. \<exists>i. phone2ix s = Some i \<and> ix2phone i = Some s)"
proof -
  let ?padded = "map (pad_to (Max (length ` set (shuffle corpus)))) (shuffle corpus)"
  have inv: "inventory = inventory_of set_list ?padded"
    and p2i: "phone2ix = mk_phone2ix inventory" and i2p: "ix2phone = mk_ix2phone inventory"
    using process_data_InrD [OF res] by blast+
  have d: "distinct inventory"
    using setl by (simp add: inv inventory_of_distinct)
  have pad: "phone2ix ''<p>'' = Some 0"
    by (simp add: p2i inv mk_phone2ix_pad)
  have "inventory \<noteq> []" by (simp add: inv inventory_of_def)
  then have pad': "ix2phone 0 = Some ''<p>''"
    by (simp add: i2p mk_ix2phone_nth) (simp add: inv inventory_of_def)
  have "\<exists>i. phone2ix s = Some i \<and> ix2phone i = Some s" if "s \<in> set inventory" for s
  proof -
    from that obtain i where i: "i < length inventory" "inventory ! i = s"
      by (auto simp: in_set_conv_nth)
    have "phone2ix s = Some i" using mk_phone2ix_nth [OF d i(1)] i(2) by (simp add: p2i)
    moreover have "ix2phone i = Some s" using i by (simp add: i2p mk_ix2phone_nth)
    ultimately show ?thesis by blast
  qed
  with pad pad' show ?thesis by blast
qed

text \<open>
  C6. Every row of the training and of the dev tensor that \<^verbatim>\<open>process_data\<close> returns
  has the length of the longest sequence of the corpus, and is the encoding of a whole
  corpus sequence followed by padding indices 0: shorter sequences are padded on the
  right and nothing is cut off.
\<close>

theorem encoded_rows_uniform_length:
  assumes perm: "mset (shuffle corpus) = mset corpus"
    and setl: "\<forall>xs. distinct (set_list xs) \<and> set (set_list xs) = set xs"
    and res: "process_data shuffle set_list corpus dv ts =
                Inr (inventory, phone2ix, ix2phone, training, dev)"
  shows "\<forall>row \<in> set training \<union> set dev.
           length row = Max (length ` set corpus) \<and>
           (\<exists>w \<in> set corpus. \<exists>enc. encode phone2ix w = Inr enc \<and>
              row = enc @ replicate (Max (length ` set corpus) - length w) 0)"
proof
  fix row assume row: "row \<in> set training \<union> set dev"
  let ?M = "Max (length ` set corpus)"
  let ?f = "\<lambda>p. int (the (phone2ix p))"
  have sets: "set (shuffle corpus) = set corpus"
    using perm by (metis set_mset_mset)
  let ?padded = "map (pad_to ?M) (shuffle corpus)"
  have M: "Max (length ` set (shuffle corpus)) = ?M" by (simp add: sets)
  from process_data_InrD [OF res] obtain as_ixs where
    inv: "inventory = inventory_of set_list ?padded"
    and p2i: "phone2ix = mk_phone2ix inventory"
    and enc: "encode_all phone2ix ?padded = Inr as_ixs"
    and sp: "split_data as_ixs dv ts = Inr (training, dev)"
    unfolding M by blast
  have dom: "\<forall>s \<in> set ?padded. set s \<subseteq> dom phone2ix"
    and as: "as_ixs = map (map ?f) ?padded"
    using enc by (auto simp: encode_all_eq split: if_splits)
  from row split_data_subset [OF sp] have "row \<in> set as_ixs" by blast
  then obtain w where w: "w \<in> set corpus" and r: "row = map ?f (pad_to ?M w)"
    by (auto simp: as sets)
  have le: "length w \<le> ?M" using w by simp
  have pad: "?f ''<p>'' = 0" by (simp add: p2i inv mk_phone2ix_pad)
  have r': "row = map ?f w @ replicate (?M - length w) 0"
    unfolding r using pad by (simp add: pad_to_def)
  have "set (pad_to ?M w) \<subseteq> dom phone2ix" using dom w by (simp add: sets)
  then have "set w \<subseteq> dom phone2ix" by (simp add: pad_to_def)
  then have e: "encode phone2ix w = Inr (map ?f w)" by (simp add: encode_eq)
  have "length row = ?M" using le by (simp add: r')
  with w e r' show "length row = ?M \<and>
           (\<exists>w \<in> set corpus. \<exists>enc. encode phone2ix w = Inr enc \<and>
              row = enc @ replicate (?M - length w) 0)" by blast
qed

text \<open>
  C10. With \<^verbatim>\<open>dev=False\<close> and a non-empty corpus, \<^verbatim>\<open>process_data\<close> returns; the
  training tensor is the encoding of every padded sequence of the shuffled corpus, the dev
  tensor is its last 10 rows (all of them when there are fewer), and so every dev row is
  also a training row.
\<close>

theorem no_dev_split_overlaps:
  assumes perm: "mset (shuffle corpus) = mset corpus"
    and setl: "\<forall>xs. distinct (set_list xs) \<and> set (set_list xs) = set xs"
    and ne: "corpus \<noteq> []"
  shows "\<exists>inventory phone2ix ix2phone training dev.
           process_data shuffle set_list corpus False ts =
             Inr (inventory, phone2ix, ix2phone, training, dev) \<and>
           encode_all phone2ix (map (pad_to (Max (length ` set corpus))) (shuffle corpus)) =
             Inr training \<and>
           length training = length corpus \<and>
           dev = drop (length training - 10) training \<and>
           set dev \<subseteq> set training"
proof -
  let ?M = "Max (length ` set corpus)"
  define padded where "padded = map (pad_to ?M) (shuffle corpus)"
  define ivt where "ivt = inventory_of set_list padded"
  define as_ixs where "as_ixs = map (map (\<lambda>p. int (the (mk_phone2ix ivt p)))) padded"
  have sets: "set (shuffle corpus) = set corpus"
    using perm by (metis set_mset_mset)
  have len: "length (shuffle corpus) = length corpus"
    using perm by (metis size_mset)
  have ne': "shuffle corpus \<noteq> []" using ne len by auto
  have m: "py_max (map length (shuffle corpus)) = Inr ?M"
    using ne' by (simp add: py_max_Inr sets)
  have e: "encode_all (mk_phone2ix ivt) padded = Inr as_ixs"
    unfolding ivt_def as_ixs_def using setl by (intro encode_all_vocab) simp
  have ne_as: "as_ixs \<noteq> []" using ne' by (simp add: as_ixs_def padded_def)
  have "\<forall>r \<in> set as_ixs. length r = ?M"
    by (auto simp: as_ixs_def padded_def sets pad_to_length)
  then have sp: "split_data as_ixs False ts = Inr (as_ixs, drop (length as_ixs - 10) as_ixs)"
    by (rule split_data_no_dev [OF ne_as])
  have "process_data shuffle set_list corpus False ts =
          Inr (ivt, mk_phone2ix ivt, mk_ix2phone ivt, as_ixs, drop (length as_ixs - 10) as_ixs)"
    unfolding process_data_def Let_def m sum.case padded_def [symmetric] ivt_def [symmetric]
    by (simp add: e sp)
  moreover have "length as_ixs = length corpus" by (simp add: as_ixs_def padded_def len)
  moreover have "set (drop (length as_ixs - 10) as_ixs) \<subseteq> set as_ixs" by (rule set_drop_subset)
  ultimately show ?thesis using e unfolding padded_def by blast
qed

section \<open>Properties of the model, the loss and the training loop\<close>

lemma rnn_scan_length: "length (rnn_scan h l h0 xs) = length xs"
  by (induction xs arbitrary: h0) (simp_all add: Let_def)

lemma rnn_scan_take: "take n (rnn_scan h l h0 xs) = rnn_scan h l h0 (take n xs)"
proof (induction xs arbitrary: n h0)
  case Nil
  then show ?case by simp
next
  case (Cons x xs)
  then show ?case by (cases n) (simp_all add: Let_def)
qed

lemma rnn_forward_length: "length (rnn_forward h hid layers xs) = length xs"
  unfolding rnn_forward_def
  by (induction layers arbitrary: xs) (simp_all add: rnn_scan_length)

lemma rnn_forward_take:
  "take n (rnn_forward h hid layers xs) = rnn_forward h hid layers (take n xs)"
  unfolding rnn_forward_def
  by (induction layers arbitrary: xs) (simp_all add: rnn_scan_take)

lemma embed_row_take:
  "embed_row W r = Inr xs \<Longrightarrow> embed_row W (take n r) = Inr (take n xs)"
proof (induction r arbitrary: n xs)
  case Nil
  then show ?case by simp
next
  case (Cons i r)
  then show ?case by (cases n) (auto split: sum.splits)
qed

lemma embed_row_length: "embed_row W r = Inr xs \<Longrightarrow> length xs = length r"
  by (induction r arbitrary: xs) (auto split: sum.splits)

lemma forward_row_take:
  "forward_row net h r = Inr out \<Longrightarrow> forward_row net h (take n r) = Inr (take n out)"
  by (auto simp: forward_row_def embed_row_take rnn_forward_take take_map split: sum.splits)

lemma forward_row_length: "forward_row net h r = Inr out \<Longrightarrow> length out = length r"
  by (auto simp: forward_row_def embed_row_length rnn_forward_length split: sum.splits)

lemma forward_nth:
  "forward net h batch = Inr outs \<Longrightarrow>
   length outs = length batch \<and> (\<forall>i < length batch. forward_row net h (batch ! i) = Inr (outs ! i))"
proof (induction batch arbitrary: outs)
  case Nil
  then show ?case by simp
next
  case (Cons r rs)
  then show ?case by (auto split: sum.splits simp: nth_Cons')
qed

text \<open>
  C9. The scores at position \<open>t\<close> of row \<open>i\<close> depend only on the symbols of that row at
  positions up to \<open>t\<close>: two batches whose rows \<open>i\<close> agree up to and including position
  \<open>t\<close> get the same scores there (whatever follows, and whatever the other rows hold).
\<close>

theorem forward_causal:
  assumes "forward net h batch1 = Inr outs1" and "forward net h batch2 = Inr outs2"
    and "i < length batch1" and "i < length batch2"
    and "t < length (batch1 ! i)" and "t < length (batch2 ! i)"
    and "take (Suc t) (batch1 ! i) = take (Suc t) (batch2 ! i)"
  shows "outs1 ! i ! t = outs2 ! i ! t"
proof -
  have r1: "forward_row net h (batch1 ! i) = Inr (outs1 ! i)"
    using forward_nth [OF assms(1)] assms(3) by blast
  have r2: "forward_row net h (batch2 ! i) = Inr (outs2 ! i)"
    using forward_nth [OF assms(2)] assms(4) by blast
  have "Inr (take (Suc t) (outs1 ! i)) = forward_row net h (take (Suc t) (batch1 ! i))"
    using forward_row_take [OF r1] by simp
  also have "\<dots> = Inr (take (Suc t) (outs2 ! i))"
    using forward_row_take [OF r2] assms(7) by simp
  finally have "take (Suc t) (outs1 ! i) = take (Suc t) (outs2 ! i)" by simp
  then have "take (Suc t) (outs1 ! i) ! t = take (Suc t) (outs2 ! i) ! t" by simp
  then show ?thesis by simp
qed

text \<open>
  C8. Encoding a sequence with a symbol that is not a key of \<^verbatim>\<open>phone2ix\<close> raises
  KeyError for the first such symbol (the exception the specification calls
  UnknownSymbolError): in the comprehension that \<^verbatim>\<open>process_data\<close> and
  \<^verbatim>\<open>get_probs\<close> share, and in \<^verbatim>\<open>get_probs\<close> as a whole, which ends with that
  exception before any word is scored or written. The symbols of a line are those left
  after \<^verbatim>\<open>rstrip\<close> has removed the trailing whitespace, the no-break space and the
  next-line character included.
\<close>

theorem unknown_symbol_key_error:
  "(\<not> set s \<subseteq> dom phone2ix \<longrightarrow>
      encode phone2ix s = Inl (KeyError (hd (filter (\<lambda>p. phone2ix p = None) s)))) \<and>
   (\<not> (\<forall>l \<in> set input_lines. set (line_symbols l) \<subseteq> dom phone2ix) \<longrightarrow>
      get_probs fmt model h phone2ix input_lines =
        ([], Some (KeyError (hd (filter (\<lambda>p. phone2ix p = None)
                                   (concat (map line_symbols input_lines)))))))"
  by (simp add: encode_eq encode_all_eq get_probs_def)

lemma alloc_next: "next_free (snd (alloc v h)) = Suc (next_free h)"
  by (simp add: alloc_def)

lemma rnn_layer_alloc_next:
  "next_free h \<le> next_free (snd (rnn_layer_alloc rm rv i hdim h))"
  by (simp add: rnn_layer_alloc_def alloc_def Let_def)

lemma nn_RNN_next: "next_free h \<le> next_free (snd (nn_RNN rm rv i hdim n h))"
proof (induction n arbitrary: i h)
  case 0
  then show ?case by simp
next
  case (Suc n)
  obtain l h1 where a: "rnn_layer_alloc rm rv i hdim h = (l, h1)" by (cases "rnn_layer_alloc rm rv i hdim h")
  obtain ls h2 where b: "nn_RNN rm rv hdim hdim n h1 = (ls, h2)" by (cases "nn_RNN rm rv hdim hdim n h1")
  have "next_free h \<le> next_free h1" using rnn_layer_alloc_next [of h rm rv i hdim] a by simp
  moreover have "next_free h1 \<le> next_free h2" using Suc [of h1 hdim] b by simp
  ultimately show ?case by (simp add: a b)
qed

lemma zip_concat:
  "list_all2 (\<lambda>xs ys. length xs = length ys) xss yss \<Longrightarrow>
   zip (concat xss) (concat yss) = concat (map2 zip xss yss)"
  by (induction xss yss rule: list_all2_induct) simp_all

lemma zip_butlast_tl:
  assumes "length out = length r"
  shows "zip (butlast out) (tl r) = map (\<lambda>t. (out ! t, r ! Suc t)) [0..<length r - 1]"
proof (rule nth_equalityI)
  show "length (zip (butlast out) (tl r)) = length (map (\<lambda>t. (out ! t, r ! Suc t)) [0..<length r - 1])"
    using assms by simp
next
  fix i assume "i < length (zip (butlast out) (tl r))"
  then have i: "i < length r - 1" using assms by simp
  then show "zip (butlast out) (tl r) ! i = map (\<lambda>t. (out ! t, r ! Suc t)) [0..<length r - 1] ! i"
    using assms by (simp add: nth_butlast nth_tl)
qed

lemma map2_nth:
  "length xs = length ys \<Longrightarrow> map2 f xs ys = map (\<lambda>i. f (xs ! i) (ys ! i)) [0..<length ys]"
  by (rule nth_equalityI) simp_all

lemma masked_losses_update:
  "k < length ps \<Longrightarrow> snd (ps ! k) = 0 \<Longrightarrow> masked_losses (ps[k := (s', 0)]) = masked_losses ps"
proof (induction ps arbitrary: k)
  case Nil
  then show ?case by simp
next
  case (Cons p ps)
  obtain s t where p: "p = (s, t)" by (cases p)
  show ?case
  proof (cases k)
    case 0
    with Cons.prems p show ?thesis by simp
  next
    case (Suc j)
    with Cons.prems have "masked_losses (ps[j := (s', 0)]) = masked_losses ps"
      by (intro Cons.IH) simp_all
    with Suc p show ?thesis by simp
  qed
qed

lemma masked_losses_terms:
  "masked_losses ps = Inr ls \<Longrightarrow>
   ls = map (\<lambda>(s, t). nll_at s t) (filter (\<lambda>(s, t). t \<noteq> 0) ps)"
proof (induction ps arbitrary: ls)
  case Nil
  then show ?case by simp
next
  case (Cons p ps)
  obtain s t where p: "p = (s, t)" by (cases p)
  from Cons.prems show ?case
    unfolding p by (auto split: if_splits sum.splits dest: Cons.IH)
qed

lemma zip_update_left:
  "k < length ys \<Longrightarrow> zip (xs[k := x]) ys = (zip xs ys)[k := (x, ys ! k)]"
  by (simp add: update_zip)

lemma masked_zip_update:
  assumes "k < length targets" and "targets ! k = 0"
  shows "masked_losses (zip (preds[k := s']) targets) = masked_losses (zip preds targets)"
proof (cases "k < length preds")
  case True
  have "zip (preds[k := s']) targets = (zip preds targets)[k := (s', 0)]"
    using assms by (simp add: zip_update_left)
  also have "masked_losses \<dots> = masked_losses (zip preds targets)"
    using True assms by (intro masked_losses_update) simp_all
  finally show ?thesis .
next
  case False
  then have "preds[k := s'] = preds" by (intro list_update_beyond) simp
  then show ?thesis by simp
qed

lemma forward_lengths:
  "forward net h batch = Inr outs \<Longrightarrow>
   list_all2 (\<lambda>out r. length out = length r) outs batch"
proof (induction batch arbitrary: outs)
  case Nil
  then show ?case by simp
next
  case (Cons r rs)
  then show ?case by (auto split: sum.splits dest: forward_row_length)
qed

text \<open>
  C4. With tying requested: when the two dimensions are equal the module's
  \<^verbatim>\<open>R2o.weight\<close> and \<^verbatim>\<open>embeddings.weight\<close> are the same parameter object, nothing is
  printed, and an update through either is read through the other; when they differ the
  constructor still returns a module, prints the diagnostic, and the two are different
  objects (an update of one leaves the other as it was).
\<close>

theorem weight_tying:
  assumes t: "tied ps" and i: "Emb_RNNLM_init rand_mat rand_vec ps h = (net, h', out)"
  shows "(d_emb ps = d_hid ps \<longrightarrow>
            R2o_weight net = embeddings_weight net \<and> out = [] \<and>
            (\<forall>v. cell (update_param (embeddings_weight net) v h') (R2o_weight net) = v) \<and>
            (\<forall>v. cell (update_param (R2o_weight net) v h') (embeddings_weight net) = v) \<and>
            (\<forall>h''. cell h'' (R2o_weight net) = cell h'' (embeddings_weight net))) \<and>
         (d_emb ps \<noteq> d_hid ps \<longrightarrow>
            R2o_weight net \<noteq> embeddings_weight net \<and>
            out = [''Dimensions don't support tied embeddings''] \<and>
            (\<forall>v. cell (update_param (embeddings_weight net) v h') (R2o_weight net) =
                  cell h' (R2o_weight net)))"
proof -
  define h1 where "h1 = snd (alloc (Matrix (rand_mat (next_free h) (inv_size ps) (d_emb ps))) h)"
  obtain layers h2 where r: "nn_RNN rand_mat rand_vec (d_emb ps) (d_hid ps) (num_layers ps) h1 = (layers, h2)"
    by (cases "nn_RNN rand_mat rand_vec (d_emb ps) (d_hid ps) (num_layers ps) h1")
  have "next_free h1 \<le> next_free h2"
    using nn_RNN_next [of h1 rand_mat rand_vec "d_emb ps" "d_hid ps" "num_layers ps"] r by simp
  then have lt: "next_free h < next_free h2" by (simp add: h1_def alloc_def)
  have a: "alloc (Matrix (rand_mat (next_free h) (inv_size ps) (d_emb ps))) h = (next_free h, h1)"
    by (simp add: h1_def alloc_def)
  from i t lt show ?thesis
    unfolding Emb_RNNLM_init_def a Let_def prod.case r
    by (auto simp: alloc_def update_param_def split: if_splits)
qed

subsection \<open>The early-stop test\<close>

text \<open>
  The early-stop message is printed only after an epoch whose dev perplexity exceeds the
  value \<^verbatim>\<open>prev_perplexity\<close> had before the loop by more than 0.01; for \<^verbatim>\<open>train_lm\<close>
  that value is \<open>10\<^sup>1\<^sup>0\<close>.
\<close>

lemma train_epochs_stop_D:
  "train_epochs step shuffle net dataset dev prev es batches st out = Inr (st', out') \<Longrightarrow>
   StopEarly \<notin> set out \<Longrightarrow> StopEarly \<in> set out' \<Longrightarrow>
   \<exists>e l p. EpochLine e l (Finite p) \<in> set out' \<and> p - prev > 1 / 100"
proof (induction es arbitrary: batches st out)
  case Nil
  then show ?case by simp
next
  case (Cons epoch rest)
  let ?b = "shuffle epoch batches"
  from Cons.prems(1) obtain st1 ep_loss where
    tb: "train_batches step net dataset ?b st (Finite 0) = Inr (st1, ep_loss)"
    by (auto simp: Let_def split: sum.splits)
  from Cons.prems(1) tb obtain dp where
    cp: "compute_perplexity net (snd st1) dev 64 = Inr dp"
    by (auto simp: Let_def split: sum.splits)
  show ?case
  proof (cases "exceeds dp prev")
    case True
    then obtain p where p: "dp = Finite p" "p - prev > 1 / 100"
      by (cases dp) auto
    from Cons.prems(1) tb cp True have "out' = (out @ [EpochLine epoch ep_loss dp]) @ [StopEarly]"
      by (simp add: Let_def)
    with p show ?thesis by auto
  next
    case False
    with Cons.prems(1) tb cp have
      "train_epochs step shuffle net dataset dev prev rest ?b st1
         (out @ [EpochLine epoch ep_loss dp]) = Inr (st', out')"
      by (simp add: Let_def)
    moreover have "StopEarly \<notin> set (out @ [EpochLine epoch ep_loss dp])"
      using Cons.prems(2) by simp
    ultimately show ?thesis using Cons.prems(3) by (rule Cons.IH)
  qed
qed

lemma train_lm_stops_only_above_sentinel:
  "train_lm step shuffle dataset dev ps net st = Inr (st', out) \<Longrightarrow> StopEarly \<in> set out \<Longrightarrow>
   \<exists>e l p. EpochLine e l (Finite p) \<in> set out \<and> p > 10 ^ 10 + 1 / 100"
proof -
  assume a: "train_lm step shuffle dataset dev ps net st = Inr (st', out)" and s: "StopEarly \<in> set out"
  from a obtain batches where
    "train_epochs step shuffle net dataset dev (10 ^ 10) [0..<epochs ps] batches st [] = Inr (st', out)"
    by (auto simp: train_lm_def split: sum.splits)
  from train_epochs_stop_D [OF this _ s] show ?thesis by auto
qed

subsection \<open>The perplexity as a single pass over the dataset\<close>

text \<open>
  The loop of \<^verbatim>\<open>compute_perplexity\<close> over the batches adds up what one pass over the
  whole dataset gives: the summed loss over the shifted targets that are not padding, and
  the number of non-zero entries of the dataset. The result does not depend on the batch
  size. The count is taken over all positions, the first included.
\<close>

lemma forward_append:
  "forward net h (xs @ ys) =
     (case forward net h xs of
        Inl e \<Rightarrow> Inl e
      | Inr a \<Rightarrow> (case forward net h ys of Inl e \<Rightarrow> Inl e | Inr b \<Rightarrow> Inr (a @ b)))"
  by (induction xs) (auto split: sum.splits)

lemma masked_losses_append_Inr:
  "masked_losses ps = Inr a \<Longrightarrow> masked_losses qs = Inr b \<Longrightarrow> masked_losses (ps @ qs) = Inr (a @ b)"
proof (induction ps arbitrary: a)
  case Nil
  then show ?case by simp
next
  case (Cons p ps)
  obtain s t where p: "p = (s, t)" by (cases p)
  from Cons.prems show ?case
    unfolding p by (auto split: if_splits sum.splits dest: Cons.IH)
qed

lemma masked_losses_append_D:
  "masked_losses (ps @ qs) = Inr c \<Longrightarrow>
   \<exists>a b. masked_losses ps = Inr a \<and> masked_losses qs = Inr b \<and> c = a @ b"
proof (induction ps arbitrary: c)
  case Nil
  then show ?case by simp
next
  case (Cons p ps)
  obtain s t where p: "p = (s, t)" by (cases p)
  from Cons.prems show ?case
    unfolding p by (auto split: if_splits sum.splits dest: Cons.IH)
qed

lemma shift_lengths:
  "list_all2 (\<lambda>out r. length out = length r) outs batch \<Longrightarrow>
   length (shift_preds outs) = length (shift_targets batch)"
  unfolding shift_preds_def shift_targets_def
  by (induction outs batch rule: list_all2_induct) simp_all

lemma zip_shift_append:
  assumes "list_all2 (\<lambda>out r. length out = length r) a x"
  shows "zip (shift_preds (a @ b)) (shift_targets (x @ y)) =
         zip (shift_preds a) (shift_targets x) @ zip (shift_preds b) (shift_targets y)"
proof -
  have "length (shift_preds a) = length (shift_targets x)"
    by (rule shift_lengths [OF assms])
  then show ?thesis by (simp add: shift_preds_def shift_targets_def)
qed

lemma count_nonzero_append: "count_nonzero (x @ y) = count_nonzero x + count_nonzero y"
  by (simp add: count_nonzero_def)

lemma cross_entropy_sum_append_Inr:
  assumes "list_all2 (\<lambda>out r. length out = length r) a x"
    and "cross_entropy_sum (shift_preds a) (shift_targets x) = Inr l1"
    and "cross_entropy_sum (shift_preds b) (shift_targets y) = Inr l2"
  shows "cross_entropy_sum (shift_preds (a @ b)) (shift_targets (x @ y)) = Inr (l1 + l2)"
proof -
  from assms(2) obtain u where u: "masked_losses (zip (shift_preds a) (shift_targets x)) = Inr u"
    and l1: "l1 = sum_list u"
    by (auto simp: cross_entropy_sum_def split: sum.splits)
  from assms(3) obtain v where v: "masked_losses (zip (shift_preds b) (shift_targets y)) = Inr v"
    and l2: "l2 = sum_list v"
    by (auto simp: cross_entropy_sum_def split: sum.splits)
  show ?thesis
    unfolding cross_entropy_sum_def zip_shift_append [OF assms(1)]
    by (simp add: masked_losses_append_Inr [OF u v] l1 l2)
qed

lemma cross_entropy_sum_append_D:
  assumes "list_all2 (\<lambda>out r. length out = length r) a x"
    and "cross_entropy_sum (shift_preds (a @ b)) (shift_targets (x @ y)) = Inr l"
  shows "\<exists>l1 l2. cross_entropy_sum (shift_preds a) (shift_targets x) = Inr l1 \<and>
                 cross_entropy_sum (shift_preds b) (shift_targets y) = Inr l2 \<and> l = l1 + l2"
proof -
  from assms(2) obtain c where
    c: "masked_losses (zip (shift_preds a) (shift_targets x) @ zip (shift_preds b) (shift_targets y)) = Inr c"
    and l: "l = sum_list c"
    unfolding cross_entropy_sum_def zip_shift_append [OF assms(1)]
    by (auto split: sum.splits)
  from masked_losses_append_D [OF c] obtain u v where
    "masked_losses (zip (shift_preds a) (shift_targets x)) = Inr u"
    "masked_losses (zip (shift_preds b) (shift_targets y)) = Inr v" "c = u @ v"
    by blast
  then show ?thesis by (simp add: cross_entropy_sum_def l)
qed

lemma perplexity_loop_from_single_pass:
  "forward net h (concat (map (\<lambda>(s, e). rows_between ds s e) bs)) = Inr outs \<Longrightarrow>
   cross_entropy_sum (shift_preds outs)
     (shift_targets (concat (map (\<lambda>(s, e). rows_between ds s e) bs))) = Inr l \<Longrightarrow>
   perplexity_loop net h ds bs nll tot =
     Inr (nll + l, tot + count_nonzero (concat (map (\<lambda>(s, e). rows_between ds s e) bs)))"
proof (induction bs arbitrary: outs l nll tot)
  case Nil
  then show ?case by (simp add: cross_entropy_sum_def shift_preds_def shift_targets_def count_nonzero_def)
next
  case (Cons b bs)
  obtain s e where b: "b = (s, e)" by (cases b)
  let ?batch = "rows_between ds s e"
  let ?rest = "concat (map (\<lambda>(s, e). rows_between ds s e) bs)"
  from Cons.prems(1) obtain o1 o2 where
    f1: "forward net h ?batch = Inr o1" and f2: "forward net h ?rest = Inr o2"
    and outs: "outs = o1 @ o2"
    by (auto simp: b forward_append split: sum.splits)
  have ll: "list_all2 (\<lambda>out r. length out = length r) o1 ?batch"
    by (rule forward_lengths [OF f1])
  from Cons.prems(2) have "cross_entropy_sum (shift_preds (o1 @ o2)) (shift_targets (?batch @ ?rest)) = Inr l"
    by (simp add: b outs)
  from cross_entropy_sum_append_D [OF ll this] obtain l1 l2 where
    c1: "cross_entropy_sum (shift_preds o1) (shift_targets ?batch) = Inr l1"
    and c2: "cross_entropy_sum (shift_preds o2) (shift_targets ?rest) = Inr l2"
    and l: "l = l1 + l2" by blast
  have "perplexity_loop net h ds bs (nll + l1) (tot + count_nonzero ?batch) =
          Inr (nll + l1 + l2, tot + count_nonzero ?batch + count_nonzero ?rest)"
    by (rule Cons.IH [OF f2 c2])
  then show ?case
    by (simp add: b Let_def f1 c1 l count_nonzero_append add.assoc)
qed

lemma concat_chunks:
  "concat (map (\<lambda>k. take b (drop (k * b) ds)) [0..<m]) = take (m * b) ds"
proof (induction m)
  case 0
  then show ?case by simp
next
  case (Suc m)
  have "take (m * b) ds @ take b (drop (m * b) ds) = take (m * b + b) ds"
    by (simp add: take_add)
  with Suc show ?case by (simp add: add.commute)
qed

lemma ceil_div_covers: "0 < b \<Longrightarrow> n \<le> (n + b - 1) div b * b" for n b :: nat
proof -
  assume b: "0 < b"
  have "(n + b - 1) div b * b + (n + b - 1) mod b = n + b - 1" by simp
  moreover have "(n + b - 1) mod b < b" using b by simp
  ultimately show ?thesis by linarith
qed

lemma batches_cover:
  assumes "0 < bsz"
  shows "\<exists>bs. batches_of (length ds) bsz = Inr bs \<and> (bs = [] \<longleftrightarrow> ds = []) \<and>
              concat (map (\<lambda>(s, e). rows_between ds s e) bs) = ds"
proof -
  let ?m = "(length ds + bsz - 1) div bsz"
  let ?bs = "map (\<lambda>k. (k * bsz, k * bsz + bsz)) [0..<?m]"
  have 1: "batches_of (length ds) bsz = Inr ?bs" using assms by (simp add: batches_of_def)
  have "concat (map (\<lambda>(s, e). rows_between ds s e) ?bs) =
        concat (map (\<lambda>k. take bsz (drop (k * bsz) ds)) [0..<?m])"
    by (simp add: rows_between_def comp_def)
  also have "\<dots> = take (?m * bsz) ds" by (rule concat_chunks)
  also have "\<dots> = ds" using ceil_div_covers [OF assms, of "length ds"] by simp
  finally have 2: "concat (map (\<lambda>(s, e). rows_between ds s e) ?bs) = ds" .
  have "?m = 0 \<longleftrightarrow> length ds = 0"
    using assms ceil_div_covers [OF assms, of "length ds"] by (auto simp: div_eq_0_iff)
  then have 3: "?bs = [] \<longleftrightarrow> ds = []" by simp
  from 1 2 3 show ?thesis by blast
qed

lemma compute_perplexity_single_pass:
  assumes "0 < bsz" and "ds \<noteq> []"
    and "forward net h ds = Inr outs"
    and "cross_entropy_sum (shift_preds outs) (shift_targets ds) = Inr l"
  shows "compute_perplexity net h ds bsz =
           Inr (if count_nonzero ds = 0 then NaN else Finite (exp (l / real (count_nonzero ds))))"
proof -
  from batches_cover [OF assms(1), of ds] obtain bs where
    b: "batches_of (length ds) bsz = Inr bs" and ne: "bs \<noteq> []"
    and c: "concat (map (\<lambda>(s, e). rows_between ds s e) bs) = ds"
    using assms(2) by blast
  have "perplexity_loop net h ds bs 0 0 = Inr (0 + l, 0 + count_nonzero ds)"
    using perplexity_loop_from_single_pass [of net h ds bs outs l 0 0] assms(3,4) c by simp
  then show ?thesis
    by (simp add: compute_perplexity_def b ne)
qed

lemma count_nonzero_targets:
  "count_nonzero ds = count_nonzero (map tl ds) + length (filter (\<lambda>r. r \<noteq> [] \<and> hd r \<noteq> 0) ds)"
proof (induction ds)
  case Nil
  then show ?case by (simp add: count_nonzero_def)
next
  case (Cons r ds)
  then show ?case by (cases r) (auto simp: count_nonzero_def)
qed

subsection \<open>The loss of one batch\<close>

lemma embed_row_valid:
  "embed_row W r = Inr xs \<Longrightarrow> \<forall>x \<in> set r. 0 \<le> x \<and> nat x < length W"
  by (induction r arbitrary: xs) (auto simp: embedding_def split: sum.splits if_splits)

lemma linear_length: "length (linear W b x) = min (length W) (length b)"
  by (simp add: linear_def vadd_def matvec_def)

lemma forward_row_scores:
  assumes "forward_row net h r = Inr out"
  shows "(\<forall>x \<in> set r. 0 \<le> x \<and> nat x < length (the_mat (cell h (embeddings_weight net)))) \<and>
         (\<forall>s \<in> set out. length s = min (length (the_mat (cell h (R2o_weight net))))
                                        (length (the_vec (cell h (R2o_bias net)))))"
  using assms
  by (auto simp: forward_row_def linear_length split: sum.splits dest: embed_row_valid)

lemma forward_rows:
  "forward net h batch = Inr outs \<Longrightarrow>
   (\<forall>r \<in> set batch. \<exists>out. forward_row net h r = Inr out) \<and>
   (\<forall>out \<in> set outs. \<exists>r. forward_row net h r = Inr out)"
proof (induction batch arbitrary: outs)
  case Nil
  then show ?case by simp
next
  case (Cons r rs)
  from Cons.prems obtain out outs' where
    r: "forward_row net h r = Inr out" and rs: "forward net h rs = Inr outs'"
    and o: "outs = out # outs'"
    by (auto split: sum.splits)
  from Cons.IH [OF rs] r o show ?case by auto
qed

lemma in_set_tl: "t \<in> set (tl x) \<Longrightarrow> t \<in> set x"
  by (cases x) simp_all

lemma aligned_in_range:
  assumes fwd: "forward net h batch = Inr outs"
    and shape: "length (the_mat (cell h (embeddings_weight net))) \<le>
                  length (the_mat (cell h (R2o_weight net)))"
               "length (the_mat (cell h (embeddings_weight net))) \<le>
                  length (the_vec (cell h (R2o_bias net)))"
  shows "\<forall>(s, t) \<in> set (zip (shift_preds outs) (shift_targets batch)). 0 \<le> t \<and> nat t < length s"
proof (clarify)
  fix s t assume st: "(s, t) \<in> set (zip (shift_preds outs) (shift_targets batch))"
  let ?E = "length (the_mat (cell h (embeddings_weight net)))"
  from st have "s \<in> set (shift_preds outs)" by (rule set_zip_leftD)
  then obtain out where out: "out \<in> set outs" and s: "s \<in> set out"
    by (auto simp: shift_preds_def dest: in_set_butlastD)
  from forward_rows [OF fwd] out obtain r where "forward_row net h r = Inr out" by blast
  from forward_row_scores [OF this] s shape have ls: "?E \<le> length s" by auto
  from st have "t \<in> set (shift_targets batch)" by (rule set_zip_rightD)
  then obtain r' where r': "r' \<in> set batch" and t: "t \<in> set r'"
    by (auto simp: shift_targets_def dest: in_set_tl)
  from forward_rows [OF fwd] r' obtain out' where "forward_row net h r' = Inr out'" by blast
  from forward_row_scores [OF this] t have "0 \<le> t \<and> nat t < ?E" by auto
  with ls show "0 \<le> t \<and> nat t < length s" by simp
qed

lemma masked_losses_in_range:
  "\<forall>(s, t) \<in> set ps. 0 \<le> t \<and> nat t < length s \<Longrightarrow>
   masked_losses ps = Inr (map (\<lambda>(s, t). nll_at s t) (filter (\<lambda>(s, t). t \<noteq> 0) ps))"
proof (induction ps)
  case Nil
  then show ?case by simp
next
  case (Cons p ps)
  obtain s t where p: "p = (s, t)" by (cases p)
  from Cons show ?case unfolding p by auto
qed


lemma zip_shift_aligned:
  assumes fwd: "forward net h batch = Inr outs" and rect: "\<forall>r \<in> set batch. length r = T"
  shows "zip (shift_preds outs) (shift_targets batch) =
           concat (map (\<lambda>i. map (\<lambda>t. (outs ! i ! t, batch ! i ! Suc t)) [0..<T - 1])
                    [0..<length batch])"
proof -
  have l2: "list_all2 (\<lambda>out r. length out = length r) outs batch"
    by (rule forward_lengths [OF fwd])
  then have len: "length outs = length batch" by (rule list_all2_lengthD)
  have l2': "list_all2 (\<lambda>xs ys. length xs = length ys) (map butlast outs) (map tl batch)"
    using l2 by (simp add: list_all2_conv_all_nth)
  have "zip (shift_preds outs) (shift_targets batch) =
          concat (map2 zip (map butlast outs) (map tl batch))"
    unfolding shift_preds_def shift_targets_def by (rule zip_concat [OF l2'])
  also have "map2 zip (map butlast outs) (map tl batch) =
          map (\<lambda>i. zip (butlast (outs ! i)) (tl (batch ! i))) [0..<length batch]"
    using len by (simp add: map2_nth)
  also have "\<dots> = map (\<lambda>i. map (\<lambda>t. (outs ! i ! t, batch ! i ! Suc t)) [0..<T - 1]) [0..<length batch]"
  proof (rule map_cong [OF refl])
    fix i assume "i \<in> set [0..<length batch]"
    then have i: "i < length batch" by simp
    then have "length (outs ! i) = length (batch ! i)"
      using l2 by (simp add: list_all2_conv_all_nth)
    moreover have "length (batch ! i) = T" using rect i by simp
    ultimately show "zip (butlast (outs ! i)) (tl (batch ! i)) =
        map (\<lambda>t. (outs ! i ! t, batch ! i ! Suc t)) [0..<T - 1]"
      using zip_butlast_tl [of "outs ! i" "batch ! i"] by simp
  qed
  finally show ?thesis .
qed

text \<open>
  C3. One pass of the loop body of \<^verbatim>\<open>train_lm\<close> and of \<^verbatim>\<open>compute_perplexity\<close> over a
  batch of \<open>B\<close> rows of length \<open>T\<close>, for a model whose output layer has a score for every
  row of the embedding. The pairs that enter the loss are, row by row, the scores at
  position \<open>t\<close> with the symbol at position \<open>t + 1\<close>, for \<open>t\<close> from 0 to \<open>T - 2\<close>. The loss
  terms are the negative log-likelihoods of the pairs whose target is not 0, and only
  those: the trainer takes its optimizer step and adds their mean to the epoch's loss, the
  evaluator adds their sum to \<^verbatim>\<open>nll\<close>, padding targets raising nothing and adding
  nothing. Replacing the scores at a position whose target is 0 by any others leaves both
  losses at these values, so the training loss has derivative 0 in each of those scores.
  When the batch is the whole dataset, \<^verbatim>\<open>compute_perplexity\<close> returns the exponential of
  the summed terms divided by its token count, for every batch size.
\<close>

theorem shifted_masked_loss:
  assumes batch: "batch = rows_between dataset start end"
    and fwd: "forward net h batch = Inr outs"
    and rect: "\<forall>r \<in> set batch. length r = T"
    and shape: "length (the_mat (cell h (embeddings_weight net))) \<le>
                  length (the_mat (cell h (R2o_weight net)))"
               "length (the_mat (cell h (embeddings_weight net))) \<le>
                  length (the_vec (cell h (R2o_bias net)))"
  defines "aligned \<equiv> concat (map (\<lambda>i. map (\<lambda>t. (outs ! i ! t, batch ! i ! Suc t)) [0..<T - 1])
                              [0..<length batch])"
  defines "terms \<equiv> map (\<lambda>(s, t). nll_at s t) (filter (\<lambda>(s, t). t \<noteq> 0) aligned)"
  shows "zip (shift_preds outs) (shift_targets batch) = aligned \<and>
         train_batches step net dataset ((start, end) # rest) (opt, h) ep_loss =
           train_batches step net dataset rest (step (opt, h) net batch)
             (fadd ep_loss (if terms = [] then NaN
                            else Finite (sum_list terms / real (length terms)))) \<and>
         perplexity_loop net h dataset ((start, end) # rest) nll tot =
           perplexity_loop net h dataset rest (nll + sum_list terms)
             (tot + count_nonzero batch) \<and>
         (\<forall>k s'. k < length (shift_targets batch) \<and> shift_targets batch ! k = 0 \<longrightarrow>
            cross_entropy_mean ((shift_preds outs)[k := s']) (shift_targets batch) =
              Inr (if terms = [] then NaN else Finite (sum_list terms / real (length terms))) \<and>
            cross_entropy_sum ((shift_preds outs)[k := s']) (shift_targets batch) =
              Inr (sum_list terms)) \<and>
         (\<forall>k j x. k < length (shift_targets batch) \<and> shift_targets batch ! k = 0 \<longrightarrow>
            DERIV (\<lambda>y. case cross_entropy_mean
                            ((shift_preds outs)[k := (shift_preds outs ! k)[j := y]])
                            (shift_targets batch) of
                          Inr (Finite l) \<Rightarrow> l | _ \<Rightarrow> 0) x :> 0) \<and>
         (\<forall>bsz. 0 < bsz \<and> dataset \<noteq> [] \<and> batch = dataset \<longrightarrow>
            compute_perplexity net h dataset bsz =
              Inr (if count_nonzero dataset = 0 then NaN
                   else Finite (exp (sum_list terms / real (count_nonzero dataset)))))"
proof -
  have a: "zip (shift_preds outs) (shift_targets batch) = aligned"
    unfolding aligned_def by (rule zip_shift_aligned [OF fwd rect])
  have ml: "masked_losses (zip (shift_preds outs) (shift_targets batch)) = Inr terms"
    unfolding terms_def a [symmetric]
    by (rule masked_losses_in_range [OF aligned_in_range [OF fwd shape]])
  have cm: "cross_entropy_mean (shift_preds outs) (shift_targets batch) =
              Inr (if terms = [] then NaN else Finite (sum_list terms / real (length terms)))"
    by (simp add: cross_entropy_mean_def ml)
  have cs: "cross_entropy_sum (shift_preds outs) (shift_targets batch) = Inr (sum_list terms)"
    by (simp add: cross_entropy_sum_def ml)
  have tb: "train_batches step net dataset ((start, end) # rest) (opt, h) ep_loss =
           train_batches step net dataset rest (step (opt, h) net batch)
             (fadd ep_loss (if terms = [] then NaN
                            else Finite (sum_list terms / real (length terms))))"
    using fwd cm by (simp add: batch Let_def)
  have pl: "perplexity_loop net h dataset ((start, end) # rest) nll tot =
           perplexity_loop net h dataset rest (nll + sum_list terms)
             (tot + count_nonzero batch)"
    using fwd cs by (simp add: batch Let_def)
  have c: "\<forall>k s'. k < length (shift_targets batch) \<and> shift_targets batch ! k = 0 \<longrightarrow>
            cross_entropy_mean ((shift_preds outs)[k := s']) (shift_targets batch) =
              Inr (if terms = [] then NaN else Finite (sum_list terms / real (length terms))) \<and>
            cross_entropy_sum ((shift_preds outs)[k := s']) (shift_targets batch) =
              Inr (sum_list terms)"
    by (simp add: cross_entropy_mean_def cross_entropy_sum_def masked_zip_update ml)
  have d: "\<forall>k j x. k < length (shift_targets batch) \<and> shift_targets batch ! k = 0 \<longrightarrow>
            DERIV (\<lambda>y. case cross_entropy_mean
                            ((shift_preds outs)[k := (shift_preds outs ! k)[j := y]])
                            (shift_targets batch) of
                          Inr (Finite l) \<Rightarrow> l | _ \<Rightarrow> 0) x :> 0"
    using c by simp
  have e: "\<forall>bsz. 0 < bsz \<and> dataset \<noteq> [] \<and> batch = dataset \<longrightarrow>
            compute_perplexity net h dataset bsz =
              Inr (if count_nonzero dataset = 0 then NaN
                   else Finite (exp (sum_list terms / real (count_nonzero dataset))))"
  proof (intro allI impI)
    fix bsz :: nat assume p: "0 < bsz \<and> dataset \<noteq> [] \<and> batch = dataset"
    then have f': "forward net h dataset = Inr outs"
      and c': "cross_entropy_sum (shift_preds outs) (shift_targets dataset) = Inr (sum_list terms)"
      using fwd cs by simp_all
    from p have "0 < bsz" and "dataset \<noteq> []" by simp_all
    then show "compute_perplexity net h dataset bsz =
              Inr (if count_nonzero dataset = 0 then NaN
                   else Finite (exp (sum_list terms / real (count_nonzero dataset))))"
      using f' c' by (rule compute_perplexity_single_pass)
  qed
  from a tb pl c d e show ?thesis by blast
qed


section \<open>Evaluation on the small model\<close>

lemma toy_net_eq:
  "toy_net = \<lparr>vocab_size = 2, emb_dim = 1, n_layers = 1, hid_dim = 1, embeddings_weight = 0,
     i2R = [\<lparr>weight_ih = 1, weight_hh = 2, bias_ih = 3, bias_hh = 4\<rparr>],
     R2o_weight = 0, R2o_bias = 6\<rparr>"
  by (simp add: toy_net_def toy_model_def Emb_RNNLM_init_def toy_params_def empty_heap_def
        alloc_def rnn_layer_alloc_def Let_def numeral_eq_Suc)

lemma toy_heap_cells:
  "cell (toy_heap b) 0 = Matrix [[0], [0]]"
  "cell (toy_heap b) (Suc 0) = Matrix [[0]]"
  "cell (toy_heap b) 2 = Matrix [[0]]"
  "cell (toy_heap b) 3 = Vector [0]"
  "cell (toy_heap b) 4 = Vector [0]"
  "cell (toy_heap b) 6 = Vector [b, 0]"
  by (simp_all add: toy_heap_def toy_net_eq update_param_def toy_model_def Emb_RNNLM_init_def
        toy_params_def empty_heap_def alloc_def rnn_layer_alloc_def Let_def numeral_eq_Suc)

lemma toy_heap_update: "update_param 6 (Vector [b', 0]) (toy_heap b) = toy_heap b'"
  by (simp add: toy_heap_def toy_net_eq update_param_def)

lemma toy_forward_row:
  "forward_row toy_net (toy_heap b) [1, 1] = Inr [[b, 0], [b, 0]]"
  by (simp add: forward_row_def toy_net_eq toy_heap_cells embedding_def rnn_forward_def
        rnn_cell_def Let_def linear_def matvec_def vadd_def dot_def)

lemma toy_forward_row0:
  "forward_row toy_net (toy_heap b) [1, 0] = Inr [[b, 0], [b, 0]]"
  by (simp add: forward_row_def toy_net_eq toy_heap_cells embedding_def rnn_forward_def
        rnn_cell_def Let_def linear_def matvec_def vadd_def dot_def)

lemma toy_forward: "forward toy_net (toy_heap b) [[1, 1]] = Inr [[[b, 0], [b, 0]]]"
  by (simp add: toy_forward_row)

lemma toy_batches: "batches_of (Suc 0) 64 = Inr [(0, 64)]"
  by (simp add: batches_of_def)

lemma toy_perplexity:
  "compute_perplexity toy_net (toy_heap b) [[1, 1]] 64 = Inr (Finite (exp (ln (exp b + 1) / 2)))"
  by (simp add: compute_perplexity_def toy_batches rows_between_def toy_forward_row Let_def
        cross_entropy_sum_def shift_preds_def shift_targets_def count_nonzero_def nll_at_def)

lemma toy_loss:
  "cross_entropy_mean (shift_preds [[[b, 0], [b, 0]]]) (shift_targets [[1, 1]]) =
     Inr (Finite (ln (exp b + 1)))"
  by (simp add: cross_entropy_mean_def shift_preds_def shift_targets_def nll_at_def)

lemma exp_half_ln_square: "0 < (x::real) \<Longrightarrow> exp (ln (x * x) / 2) = x"
  by (simp add: ln_mult)

lemma toy_ppl_2: "compute_perplexity toy_net (toy_heap (ln 3)) [[1, 1]] 64 = Inr (Finite 2)"
  using exp_half_ln_square [of 2] by (simp add: toy_perplexity)

lemma toy_ppl_3: "compute_perplexity toy_net (toy_heap (ln 8)) [[1, 1]] 64 = Inr (Finite 3)"
  using exp_half_ln_square [of 3] by (simp add: toy_perplexity)

lemma toy_ppl_4: "compute_perplexity toy_net (toy_heap (ln 15)) [[1, 1]] 64 = Inr (Finite 4)"
  using exp_half_ln_square [of 4] by (simp add: toy_perplexity)

lemma toy_R2o_bias: "R2o_bias toy_net = 6"
  by (simp add: toy_net_eq)

lemma toy_train_batches:
  "train_batches toy_step toy_net [[1, 1]] [(0, 64)] (k, toy_heap b) (Finite 0) =
     Inr ((Suc k, toy_heap (ln (real ((k + 2) * (k + 2)) - 1))), Finite (ln (exp b + 1)))"
  by (simp add: rows_between_def toy_forward_row Let_def toy_step_def
        toy_R2o_bias toy_heap_update
        cross_entropy_mean_def shift_preds_def shift_targets_def nll_at_def)

text \<open>
  C1. \<^verbatim>\<open>compute_perplexity\<close> divides the summed loss by the number of non-zero entries
  of the whole batch, position 0 included, not by the number of non-padding targets. For
  the one-row dataset \<open>[[1, 1]]\<close> and the small model with output bias \<open>ln 3\<close> the summed
  loss is \<open>ln 4\<close> over one non-padding target, so that \<open>exp(total_nll / total_count)\<close> is 4,
  but the function counts 2 tokens and returns \<open>exp(ln 4 / 2) = 2\<close>.
\<close>

theorem perplexity_counts_start_symbols:
  "compute_perplexity toy_net (toy_heap (ln 3)) [[1, 1]] 64 = Inr (Finite 2) \<and>
   forward toy_net (toy_heap (ln 3)) [[1, 1]] = Inr [[[ln 3, 0], [ln 3, 0]]] \<and>
   cross_entropy_sum (shift_preds [[[ln 3, 0], [ln 3, 0]]]) (shift_targets [[1, 1]]) = Inr (ln 4) \<and>
   count_nonzero (map tl [[1, 1]]) = 1 \<and>
   count_nonzero [[1, 1]] = 2 \<and>
   exp (ln 4 / real (count_nonzero (map tl [[1, 1]]))) = (4::real)"
  by (simp add: toy_ppl_2 toy_forward_row cross_entropy_sum_def shift_preds_def shift_targets_def
        nll_at_def count_nonzero_def)

text \<open>
  C2. A run of \<^verbatim>\<open>train_lm\<close> for three epochs in which the dev perplexity is 2 after
  the first epoch, 3 after the second and 4 after the third. The second epoch's perplexity
  exceeds the first's by more than 0.01, yet training goes on through the third epoch and
  never prints the early-stop message: every epoch is compared with the initial
  \<open>10\<^sup>1\<^sup>0\<close>, because \<^verbatim>\<open>prev_perplexity\<close> is never updated.
\<close>

theorem early_stop_compares_with_sentinel:
  "train_lm toy_step (\<lambda>epoch batches. batches) [[1, 1]] [[1, 1]] toy_params toy_net (0, toy_heap 0) =
     Inr ((3, toy_heap (ln 15)),
          [EpochLine 0 (Finite (ln 2)) (Finite 2),
           EpochLine 1 (Finite (ln 4)) (Finite 3),
           EpochLine 2 (Finite (ln 9)) (Finite 4)])"
proof -
  have e: "[0..<3] = [0, 1, 2]" by (simp add: upt_rec)
  have b: "batches_of (length [[1, 1::int]]) (batch_size toy_params) = Inr [(0, 64)]"
    by (simp add: toy_params_def toy_batches)
  have n: "epochs toy_params = 3" by (simp add: toy_params_def)
  show ?thesis
    unfolding train_lm_def b n e
    by (simp add: toy_train_batches toy_ppl_2 toy_ppl_3 toy_ppl_4 Let_def
          del: train_batches.simps)
qed

subsection \<open>Instances\<close>

lemma toy_forward_row_110:
  "forward_row toy_net (toy_heap b) [1, 1, 0] = Inr [[b, 0], [b, 0], [b, 0]]"
  by (simp add: forward_row_def toy_net_eq toy_heap_cells embedding_def rnn_forward_def
        rnn_cell_def Let_def linear_def matvec_def vadd_def dot_def)

text \<open>Instances of the theorems above on the small model.\<close>

theorem forward_causal_witness:
  "forward toy_net (toy_heap 0) [[1, 1]] = Inr [[[0, 0], [0, 0]]] \<and>
   forward toy_net (toy_heap 0) [[1, 0]] = Inr [[[0, 0], [0, 0]]] \<and>
   take (Suc 0) ([[1, 1]] ! 0) = take (Suc 0) ([[1, 0::int]] ! 0) \<and>
   [[[0, 0], [0, 0::real]]] ! 0 ! 0 = [[[0, 0], [0, 0::real]]] ! 0 ! 0"
proof -
  have f1: "forward toy_net (toy_heap 0) [[1, 1]] = Inr [[[0, 0], [0, 0]]]"
    by (simp add: toy_forward_row)
  have f2: "forward toy_net (toy_heap 0) [[1, 0]] = Inr [[[0, 0], [0, 0]]]"
    by (simp add: toy_forward_row0)
  have t: "take (Suc 0) ([[1, 1]] ! 0) = take (Suc 0) ([[1, 0::int]] ! 0)" by simp
  have "[[[0, 0], [0, 0::real]]] ! 0 ! 0 = [[[0, 0], [0, 0::real]]] ! 0 ! 0"
    by (rule forward_causal [OF f1 f2 _ _ _ _ t]) simp_all
  with f1 f2 t show ?thesis by blast
qed

theorem unknown_symbol_key_error_witness:
  "\<not> set [''<s>'', ''b'', ''<e>''] \<subseteq>
       dom (mk_phone2ix [''<p>'', ''<s>'', ''a'', ''<e>'', [CHR ''b'', CHR 0xA0]]) \<and>
   encode (mk_phone2ix [''<p>'', ''<s>'', ''a'', ''<e>'', [CHR ''b'', CHR 0xA0]])
       [''<s>'', ''b'', ''<e>''] = Inl (KeyError ''b'') \<and>
   line_symbols [CHR ''a'', CHR 0xA0, CHR 0x0A] = [''<s>'', ''a'', ''<e>''] \<and>
   line_symbols [CHR ''a'', CHR '' '', CHR ''b'', CHR 0xA0, CHR 0x0A] =
     [''<s>'', ''a'', ''b'', ''<e>''] \<and>
   get_probs (\<lambda>p. ''1.0'') toy_net (toy_heap 0)
       (mk_phone2ix [''<p>'', ''<s>'', ''a'', ''<e>'', [CHR ''b'', CHR 0xA0]])
       [[CHR ''a'', CHR 0xA0, CHR 0x0A], [CHR ''a'', CHR '' '', CHR ''b'', CHR 0xA0, CHR 0x0A]] =
     ([], Some (KeyError ''b''))"
proof -
  let ?d = "mk_phone2ix [''<p>'', ''<s>'', ''a'', ''<e>'', [CHR ''b'', CHR 0xA0]]"
  have d: "dom ?d = {''<p>'', ''<s>'', ''a'', ''<e>'', [CHR ''b'', CHR 0xA0]}"
    by (simp add: mk_phone2ix_dom)
  have n: "?d p = None \<longleftrightarrow> p \<notin> {''<p>'', ''<s>'', ''a'', ''<e>'', [CHR ''b'', CHR 0xA0]}" for p
    using d by (metis domIff)
  have l1: "line_symbols [CHR ''a'', CHR 0xA0, CHR 0x0A] = [''<s>'', ''a'', ''<e>'']"
    by (simp add: line_symbols_def rstrip_def is_space_def)
  have l2: "line_symbols [CHR ''a'', CHR '' '', CHR ''b'', CHR 0xA0, CHR 0x0A] =
              [''<s>'', ''a'', ''b'', ''<e>'']"
    by (simp add: line_symbols_def rstrip_def is_space_def)
  have h1: "\<not> set [''<s>'', ''b'', ''<e>''] \<subseteq> dom ?d"
    by (simp add: d)
  have h2: "\<not> (\<forall>l \<in> set [[CHR ''a'', CHR 0xA0, CHR 0x0A],
                            [CHR ''a'', CHR '' '', CHR ''b'', CHR 0xA0, CHR 0x0A]].
                 set (line_symbols l) \<subseteq> dom ?d)"
    by (simp add: d l1 l2)
  from h1 h2
    unknown_symbol_key_error [of "[''<s>'', ''b'', ''<e>'']" ?d
      "[[CHR ''a'', CHR 0xA0, CHR 0x0A], [CHR ''a'', CHR '' '', CHR ''b'', CHR 0xA0, CHR 0x0A]]"
      "\<lambda>p. ''1.0''" toy_net "toy_heap 0"]
  have "encode ?d [''<s>'', ''b'', ''<e>''] = Inl (KeyError ''b'') \<and>
        get_probs (\<lambda>p. ''1.0'') toy_net (toy_heap 0) ?d
          [[CHR ''a'', CHR 0xA0, CHR 0x0A], [CHR ''a'', CHR '' '', CHR ''b'', CHR 0xA0, CHR 0x0A]] =
        ([], Some (KeyError ''b''))"
    by (simp add: n l1 l2)
  with h1 l1 l2 show ?thesis by blast
qed

theorem weight_tying_witness:
  "tied toy_params \<and> d_emb toy_params = d_hid toy_params \<and>
   R2o_weight toy_net = embeddings_weight toy_net \<and>
   snd (snd toy_model) = [] \<and>
   tied (toy_params\<lparr>d_hid := 2\<rparr>) \<and>
   d_emb (toy_params\<lparr>d_hid := 2\<rparr>) \<noteq> d_hid (toy_params\<lparr>d_hid := 2\<rparr>) \<and>
   R2o_weight (fst (Emb_RNNLM_init (\<lambda>a r c. replicate r (replicate c 0)) (\<lambda>a n. replicate n 0)
                      (toy_params\<lparr>d_hid := 2\<rparr>) empty_heap)) \<noteq>
   embeddings_weight (fst (Emb_RNNLM_init (\<lambda>a r c. replicate r (replicate c 0)) (\<lambda>a n. replicate n 0)
                      (toy_params\<lparr>d_hid := 2\<rparr>) empty_heap)) \<and>
   snd (snd (Emb_RNNLM_init (\<lambda>a r c. replicate r (replicate c 0)) (\<lambda>a n. replicate n 0)
                      (toy_params\<lparr>d_hid := 2\<rparr>) empty_heap)) =
     [''Dimensions don't support tied embeddings'']"
proof -
  let ?m = "Emb_RNNLM_init (\<lambda>a r c. replicate r (replicate c 0)) (\<lambda>a n. replicate n 0)
              (toy_params\<lparr>d_hid := 2\<rparr>) empty_heap"
  have t1: "tied toy_params" and e1: "d_emb toy_params = d_hid toy_params"
    by (simp_all add: toy_params_def)
  have t2: "tied (toy_params\<lparr>d_hid := 2\<rparr>)"
    and e2: "d_emb (toy_params\<lparr>d_hid := 2\<rparr>) \<noteq> d_hid (toy_params\<lparr>d_hid := 2\<rparr>)"
    by (simp_all add: toy_params_def)
  have i1: "Emb_RNNLM_init (\<lambda>a r c. replicate r (replicate c 0)) (\<lambda>a n. replicate n 0)
              toy_params empty_heap = (toy_net, fst (snd toy_model), snd (snd toy_model))"
    by (simp add: toy_net_def toy_model_def)
  have i2: "?m = (fst ?m, fst (snd ?m), snd (snd ?m))" by simp
  from weight_tying [OF t1 i1] e1 weight_tying [OF t2 i2] e2 t1 t2
  show ?thesis by blast
qed

theorem shifted_masked_loss_witness:
  "forward toy_net (toy_heap (ln 3)) (rows_between [[1, 1, 0]] 0 64) =
     Inr [[[ln 3, 0], [ln 3, 0], [ln 3, 0]]] \<and>
   zip (shift_preds [[[ln 3, 0], [ln 3, 0], [ln 3, 0]]]) (shift_targets [[1, 1, 0]]) =
     [([ln 3, 0], 1), ([ln 3, 0], 0)] \<and>
   train_batches toy_step toy_net [[1, 1, 0]] [(0, 64)] (0, toy_heap (ln 3)) (Finite 0) =
     Inr (toy_step (0, toy_heap (ln 3)) toy_net [[1, 1, 0]], Finite (ln 4)) \<and>
   perplexity_loop toy_net (toy_heap (ln 3)) [[1, 1, 0]] [(0, 64)] 0 0 = Inr (ln 4, 2) \<and>
   compute_perplexity toy_net (toy_heap (ln 3)) [[1, 1, 0]] 64 = Inr (Finite 2) \<and>
   cross_entropy_mean ((shift_preds [[[ln 3, 0], [ln 3, 0], [ln 3, 0]]])[1 := [5, 7]])
       (shift_targets [[1, 1, 0]]) = Inr (Finite (ln 4))"
proof -
  let ?outs = "[[[ln 3, 0], [ln 3, 0], [ln 3, 0::real]]]"
  let ?h = "toy_heap (ln 3)"
  have b: "[[1, 1, 0::int]] = rows_between [[1, 1, 0]] 0 64"
    by (simp add: rows_between_def)
  have f: "forward toy_net ?h [[1, 1, 0]] = Inr ?outs"
    by (simp add: toy_forward_row_110)
  have r: "\<forall>r \<in> set [[1, 1, 0::int]]. length r = 3" by simp
  have s1: "length (the_mat (cell ?h (embeddings_weight toy_net))) \<le>
              length (the_mat (cell ?h (R2o_weight toy_net)))"
    by (simp add: toy_net_eq toy_heap_cells)
  have s2: "length (the_mat (cell ?h (embeddings_weight toy_net))) \<le>
              length (the_vec (cell ?h (R2o_bias toy_net)))"
    by (simp add: toy_net_eq toy_heap_cells)
  have z: "concat (map (\<lambda>i. map (\<lambda>t. (?outs ! i ! t, [[1, 1, 0::int]] ! i ! Suc t)) [0..<3 - 1])
              [0..<length [[1, 1, 0::int]]]) = [([ln 3, 0], 1), ([ln 3, 0], 0)]"
    by (simp add: upt_rec)
  have tm: "map (\<lambda>(s, t). nll_at s t)
              (filter (\<lambda>(s, t). t \<noteq> 0) [([ln 3, 0], 1), ([ln 3, 0::real], 0::int)]) = [ln 4]"
    by (simp add: nll_at_def)
  note t = shifted_masked_loss [where step = toy_step and rest = "[]" and opt = "0::nat"
      and ep_loss = "Finite 0" and nll = 0 and tot = 0, OF b f r s1 s2, unfolded z tm]
  have k: "1 < length (shift_targets [[1, 1, 0]]) \<and> shift_targets [[1, 1, 0]] ! 1 = 0"
    by (simp add: shift_targets_def)
  have c1: "forward toy_net ?h (rows_between [[1, 1, 0]] 0 64) = Inr ?outs"
    using f b by simp
  have c2: "zip (shift_preds ?outs) (shift_targets [[1, 1, 0]]) = [([ln 3, 0], 1), ([ln 3, 0], 0)]"
    using t by blast
  have c3: "train_batches toy_step toy_net [[1, 1, 0]] [(0, 64)] (0, ?h) (Finite 0) =
     Inr (toy_step (0, ?h) toy_net [[1, 1, 0]], Finite (ln 4))"
    using t by simp
  have c4: "perplexity_loop toy_net ?h [[1, 1, 0]] [(0, 64)] 0 0 = Inr (ln 4, 2)"
    using t by (simp add: count_nonzero_def)
  have c5: "compute_perplexity toy_net ?h [[1, 1, 0]] 64 = Inr (Finite 2)"
    using t exp_half_ln_square [of 2] by (simp add: count_nonzero_def)
  have c6: "cross_entropy_mean ((shift_preds ?outs)[1 := [5, 7]]) (shift_targets [[1, 1, 0]]) =
      Inr (Finite (ln 4))"
    using t k by simp
  from c1 c2 c3 c4 c5 c6 show ?thesis by blast
qed

text \<open>
  A run on a two-word corpus, with \<^verbatim>\<open>random.shuffle\<close> reversing the list, the set
  iterated in \<open>remdups\<close> order and a 50 per cent split.
\<close>

lemma process_data_example:
  "process_data rev remdups
     [[''<s>'', ''p'', ''a'', ''t'', ''<e>''], [''<s>'', ''a'', ''<e>'']] True 50 =
   Inr ([''<p>'', ''<s>'', ''p'', ''a'', ''t'', ''<e>''],
        mk_phone2ix [''<p>'', ''<s>'', ''p'', ''a'', ''t'', ''<e>''],
        mk_ix2phone [''<p>'', ''<s>'', ''p'', ''a'', ''t'', ''<e>''],
        [[1, 3, 5, 0, 0]], [[1, 2, 3, 4, 5]])"
proof -
  have m: "py_max (map length (rev [[''<s>'', ''p'', ''a'', ''t'', ''<e>''],
             [''<s>'', ''a'', ''<e>'']])) = Inr 5"
    by simp
  have i: "inventory_of remdups (map (pad_to 5)
             (rev [[''<s>'', ''p'', ''a'', ''t'', ''<e>''], [''<s>'', ''a'', ''<e>'']])) =
           [''<p>'', ''<s>'', ''p'', ''a'', ''t'', ''<e>'']"
    by code_simp
  have e: "encode_all (mk_phone2ix [''<p>'', ''<s>'', ''p'', ''a'', ''t'', ''<e>''])
             (map (pad_to 5)
               (rev [[''<s>'', ''p'', ''a'', ''t'', ''<e>''], [''<s>'', ''a'', ''<e>'']])) =
           Inr [[1, 3, 5, 0, 0], [1, 2, 3, 4, 5]]"
    by code_simp
  have sp: "split_data [[1, 3, 5, 0, 0], [1, 2, 3, 4, 5]] True 50 =
              Inr ([[1, 3, 5, 0, 0]], [[1, 2, 3, 4, 5]])"
    by code_simp
  show ?thesis
    unfolding process_data_def Let_def m sum.case i e sp by simp
qed

theorem process_data_vocab_roundtrip_witness:
  "(\<forall>xs::string list. distinct (remdups xs) \<and> set (remdups xs) = set xs) \<and>
   process_data rev remdups
     [[''<s>'', ''p'', ''a'', ''t'', ''<e>''], [''<s>'', ''a'', ''<e>'']] True 50 =
   Inr ([''<p>'', ''<s>'', ''p'', ''a'', ''t'', ''<e>''],
        mk_phone2ix [''<p>'', ''<s>'', ''p'', ''a'', ''t'', ''<e>''],
        mk_ix2phone [''<p>'', ''<s>'', ''p'', ''a'', ''t'', ''<e>''],
        [[1, 3, 5, 0, 0]], [[1, 2, 3, 4, 5]]) \<and>
   mk_phone2ix [''<p>'', ''<s>'', ''p'', ''a'', ''t'', ''<e>''] ''<p>'' = Some 0 \<and>
   mk_ix2phone [''<p>'', ''<s>'', ''p'', ''a'', ''t'', ''<e>''] 0 = Some ''<p>'' \<and>
   (\<exists>i. mk_phone2ix [''<p>'', ''<s>'', ''p'', ''a'', ''t'', ''<e>''] ''t'' = Some i \<and>
        mk_ix2phone [''<p>'', ''<s>'', ''p'', ''a'', ''t'', ''<e>''] i = Some ''t'')"
proof -
  have h: "\<forall>xs::string list. distinct (remdups xs) \<and> set (remdups xs) = set xs"
    by simp
  have t: "''t'' \<in> set [''<p>'', ''<s>'', ''p'', ''a'', ''t'', ''<e>'']"
    by simp
  show ?thesis
    using process_data_vocab_roundtrip [OF h process_data_example] h process_data_example t
    by blast
qed

theorem encoded_rows_uniform_length_witness:
  "mset (rev [[''<s>'', ''p'', ''a'', ''t'', ''<e>''], [''<s>'', ''a'', ''<e>'']]) =
     mset [[''<s>'', ''p'', ''a'', ''t'', ''<e>''], [''<s>'', ''a'', ''<e>'']] \<and>
   (\<forall>xs::string list. distinct (remdups xs) \<and> set (remdups xs) = set xs) \<and>
   process_data rev remdups
     [[''<s>'', ''p'', ''a'', ''t'', ''<e>''], [''<s>'', ''a'', ''<e>'']] True 50 =
   Inr ([''<p>'', ''<s>'', ''p'', ''a'', ''t'', ''<e>''],
        mk_phone2ix [''<p>'', ''<s>'', ''p'', ''a'', ''t'', ''<e>''],
        mk_ix2phone [''<p>'', ''<s>'', ''p'', ''a'', ''t'', ''<e>''],
        [[1, 3, 5, 0, 0]], [[1, 2, 3, 4, 5]]) \<and>
   (\<exists>w enc. w \<in> set [[''<s>'', ''p'', ''a'', ''t'', ''<e>''], [''<s>'', ''a'', ''<e>'']] \<and>
      encode (mk_phone2ix [''<p>'', ''<s>'', ''p'', ''a'', ''t'', ''<e>'']) w = Inr enc \<and>
      [1, 3, 5, 0, 0] = enc @ replicate (5 - length w) 0)"
proof -
  let ?c = "[[''<s>'', ''p'', ''a'', ''t'', ''<e>''], [''<s>'', ''a'', ''<e>'']]"
  have p: "mset (rev ?c) = mset ?c" by simp
  have h: "\<forall>xs::string list. distinct (remdups xs) \<and> set (remdups xs) = set xs"
    by simp
  have M: "Max (length ` set ?c) = 5" by simp
  have "\<forall>row \<in> set [[1, 3, 5, 0, 0]] \<union> set [[1, 2, 3, 4, 5]]. length row = (5::nat) \<and>
          (\<exists>w \<in> set ?c. \<exists>enc.
              encode (mk_phone2ix [''<p>'', ''<s>'', ''p'', ''a'', ''t'', ''<e>'']) w = Inr enc \<and>
              row = enc @ replicate (5 - length w) 0)"
    using encoded_rows_uniform_length [of rev ?c remdups, OF p h process_data_example]
    unfolding M .
  then have c: "\<exists>w enc. w \<in> set ?c \<and>
      encode (mk_phone2ix [''<p>'', ''<s>'', ''p'', ''a'', ''t'', ''<e>'']) w = Inr enc \<and>
      [1, 3, 5, 0, 0] = enc @ replicate (5 - length w) 0"
    by fastforce
  show ?thesis
    by (rule conjI [OF p conjI [OF h conjI [OF process_data_example c]]])
qed

theorem no_dev_split_overlaps_witness:
  "mset (rev [[''<s>'', ''p'', ''a'', ''t'', ''<e>''], [''<s>'', ''a'', ''<e>'']]) =
     mset [[''<s>'', ''p'', ''a'', ''t'', ''<e>''], [''<s>'', ''a'', ''<e>'']] \<and>
   (\<forall>xs::string list. distinct (remdups xs) \<and> set (remdups xs) = set xs) \<and>
   [[''<s>'', ''p'', ''a'', ''t'', ''<e>''], [''<s>'', ''a'', ''<e>'']] \<noteq> [] \<and>
   (\<exists>inventory phone2ix ix2phone training dev.
      process_data rev remdups
        [[''<s>'', ''p'', ''a'', ''t'', ''<e>''], [''<s>'', ''a'', ''<e>'']] False 60 =
        Inr (inventory, phone2ix, ix2phone, training, dev) \<and>
      length training = 2 \<and> set dev \<subseteq> set training)"
proof -
  let ?c = "[[''<s>'', ''p'', ''a'', ''t'', ''<e>''], [''<s>'', ''a'', ''<e>'']]"
  have p: "mset (rev ?c) = mset ?c" by simp
  have h: "\<forall>xs::string list. distinct (remdups xs) \<and> set (remdups xs) = set xs"
    by simp
  have n: "?c \<noteq> []" by simp
  have l: "length ?c = 2" by simp
  have "\<exists>inventory phone2ix ix2phone training dev.
      process_data rev remdups ?c False 60 =
        Inr (inventory, phone2ix, ix2phone, training, dev) \<and>
      length training = 2 \<and> set dev \<subseteq> set training"
    using no_dev_split_overlaps [of rev ?c remdups 60, OF p h n] unfolding l by blast
  then show ?thesis
    by (intro conjI p h n)
qed

text \<open>
  C7. The split point is computed in double precision as
  \<^verbatim>\<open>int(len(as_ixs) * (training_split/100))\<close>. On a corpus of 50 words (all equal, so
  that every shuffle gives the same list) and a training split of 58 per cent the
  training tensor has 28 rows and the dev tensor 22, while
  \<open>\<lfloor>50 \<cdot> 58 / 100\<rfloor> = 29\<close>: 58/100 rounds to a double below 0.58 and the product to a
  double below 29.
\<close>

theorem split_point_double_rounding:
  "map_sum id (\<lambda>(inventory, phone2ix, ix2phone, training, dev). (length training, length dev))
     (process_data id remdups (replicate 50 [''<s>'', ''a'', ''<e>'']) True 58) = Inr (28, 22)
   \<and> \<lfloor>50 * 58 / (100::rat)\<rfloor> = 29"
  by code_simp

end
